theory Spec2Isabelle
  imports Complex_Main "HOL-Library.Multiset"
begin

section \<open>IEEE double-precision numbers\<close>

text \<open>
  The engine of \<^verbatim>\<open>src/backend/scalingLogic.js\<close> computes with JavaScript numbers, which are
  IEEE 754 binary64 values. A finite double is a sign bit and a real number on the binary64
  grid; the arithmetic operations compute the exact real result and round it to the
  nearest double, ties to even, with overflow to infinity.

  \<open>rhe\<close> rounds a real to the nearest integer, ties to even. The binary exponent of a
  real is \<open>\<lfloor>log\<^sub>2 \<bar>x\<bar>\<rfloor>\<close>, not below \<open>emin\<close> (the subnormal range); the doubles in the binade
  of \<open>x\<close> are the integer multiples of \<open>ulp x\<close>.
\<close>

definition emin :: int where
  "emin = - 1022"

definition emax :: int where
  "emax = 1024"

definition rhe :: "real \<Rightarrow> int" where
  "rhe q =
     (let f = \<lfloor>q\<rfloor>; d = q - of_int f
      in if d < 1 / 2 then f else if 1 / 2 < d then f + 1 else if even f then f else f + 1)"

definition expo :: "real \<Rightarrow> int" where
  "expo x = max \<lfloor>log 2 \<bar>x\<bar>\<rfloor> emin"

definition ulp :: "real \<Rightarrow> real" where
  "ulp x = 2 powi (expo x - 52)"

definition round64 :: "real \<Rightarrow> real" where
  "round64 x = (if x = 0 then 0 else sgn x * of_int (rhe (\<bar>x\<bar> / ulp x)) * ulp x)"

definition isDouble :: "real \<Rightarrow> bool" where
  "isDouble x = (round64 x = x \<and> \<bar>x\<bar> < 2 powi emax)"

text \<open>
  A double is a pair of a sign bit and a representable real; the sign bit is free only for
  zero, which gives the two zeros.
\<close>

typedef double = "{p :: bool \<times> real. isDouble (snd p) \<and> (snd p \<noteq> 0 \<longrightarrow> fst p = (snd p < 0))}"
  by (rule exI [of _ "(False, 0)"]) (simp add: isDouble_def round64_def)

definition val :: "double \<Rightarrow> real" where
  "val d = snd (Rep_double d)"

definition isNeg :: "double \<Rightarrow> bool" where
  "isNeg d = fst (Rep_double d)"

text \<open>\<open>mkDouble s x\<close> is the double of value \<open>x\<close>; the sign \<open>s\<close> is used when \<open>x\<close> is zero.\<close>

definition mkDouble :: "bool \<Rightarrow> real \<Rightarrow> double" where
  "mkDouble s x = Abs_double (if x = 0 then s else x < 0, x)"

definition negZero :: double where
  "negZero = mkDouble True 0"

datatype jsnum = NaN | NInf | Fin double | PInf

text \<open>
  \<open>fl s r\<close> is the number an operation with exact result \<open>r\<close> returns; \<open>s\<close> is the sign of
  the result when it rounds to zero.
\<close>

definition fl :: "bool \<Rightarrow> real \<Rightarrow> jsnum" where
  "fl s r =
     (let y = round64 r
      in if 2 powi emax \<le> \<bar>y\<bar> then (if r < 0 then NInf else PInf)
         else Fin (mkDouble s y))"

text \<open>An operation with exact result \<open>r\<close> overflows unless \<open>r\<close> is in range.\<close>

definition inRange :: "real \<Rightarrow> bool" where
  "inRange r = (\<bar>round64 r\<bar> < 2 powi emax)"

text \<open>
  \<open>D x\<close> is the double nearest to \<open>x\<close>: the value of a numeric literal, and \<open>x\<close> itself
  when \<open>x\<close> is representable.
\<close>

definition D :: "real \<Rightarrow> double" where
  "D x = (case fl False x of Fin d \<Rightarrow> d | _ \<Rightarrow> mkDouble False 0)"

fun isNegNum :: "jsnum \<Rightarrow> bool" where
  "isNegNum NInf = True"
| "isNegNum (Fin x) = isNeg x"
| "isNegNum a = False"

fun js_neg :: "jsnum \<Rightarrow> jsnum" where
  "js_neg NaN = NaN"
| "js_neg NInf = PInf"
| "js_neg PInf = NInf"
| "js_neg (Fin x) = Fin (mkDouble (\<not> isNeg x) (- val x))"

text \<open>An exact sum of zero is \<open>-0\<close> only when both operands are negative zeros.\<close>

fun js_add :: "jsnum \<Rightarrow> jsnum \<Rightarrow> jsnum" where
  "js_add NaN b = NaN"
| "js_add a NaN = NaN"
| "js_add (Fin x) (Fin y) =
     (let r = val x + val y in fl (if r = 0 then isNeg x \<and> isNeg y else r < 0) r)"
| "js_add PInf NInf = NaN"
| "js_add NInf PInf = NaN"
| "js_add PInf b = PInf"
| "js_add a PInf = PInf"
| "js_add NInf b = NInf"
| "js_add a NInf = NInf"

definition js_sub :: "jsnum \<Rightarrow> jsnum \<Rightarrow> jsnum" where
  "js_sub a b = js_add a (js_neg b)"

text \<open>The sign of a product or quotient is the exclusive or of the operands' signs.\<close>

fun js_mul :: "jsnum \<Rightarrow> jsnum \<Rightarrow> jsnum" where
  "js_mul NaN b = NaN"
| "js_mul a NaN = NaN"
| "js_mul (Fin x) (Fin y) = fl (isNeg x \<noteq> isNeg y) (val x * val y)"
| "js_mul (Fin x) PInf = (if val x = 0 then NaN else if isNeg x then NInf else PInf)"
| "js_mul (Fin x) NInf = (if val x = 0 then NaN else if isNeg x then PInf else NInf)"
| "js_mul PInf (Fin y) = (if val y = 0 then NaN else if isNeg y then NInf else PInf)"
| "js_mul NInf (Fin y) = (if val y = 0 then NaN else if isNeg y then PInf else NInf)"
| "js_mul PInf PInf = PInf"
| "js_mul NInf NInf = PInf"
| "js_mul PInf NInf = NInf"
| "js_mul NInf PInf = NInf"

fun js_div :: "jsnum \<Rightarrow> jsnum \<Rightarrow> jsnum" where
  "js_div NaN b = NaN"
| "js_div a NaN = NaN"
| "js_div (Fin x) (Fin y) =
     (if val y = 0
      then (if val x = 0 then NaN else if isNeg x \<noteq> isNeg y then NInf else PInf)
      else fl (isNeg x \<noteq> isNeg y) (val x / val y))"
| "js_div (Fin x) PInf = Fin (mkDouble (isNeg x) 0)"
| "js_div (Fin x) NInf = Fin (mkDouble (\<not> isNeg x) 0)"
| "js_div PInf (Fin y) = (if isNeg y then NInf else PInf)"
| "js_div NInf (Fin y) = (if isNeg y then PInf else NInf)"
| "js_div a b = NaN"

text \<open>
  The remainder \<^verbatim>\<open>a % b\<close> takes the sign of the dividend: the quotient is truncated
  towards zero. The exact remainder of two doubles is a double (lemma \<open>rem_isDouble\<close>), so
  the rounding in \<open>fl\<close> does not change it.
\<close>

definition trunc :: "real \<Rightarrow> int" where
  "trunc r = (if 0 \<le> r then \<lfloor>r\<rfloor> else \<lceil>r\<rceil>)"

fun js_mod :: "jsnum \<Rightarrow> jsnum \<Rightarrow> jsnum" where
  "js_mod (Fin x) (Fin y) =
     (if val y = 0 then NaN
      else fl (isNeg x) (val x - val y * of_int (trunc (val x / val y))))"
| "js_mod (Fin x) PInf = Fin x"
| "js_mod (Fin x) NInf = Fin x"
| "js_mod a b = NaN"

text \<open>Comparisons: every comparison with \<open>NaN\<close> is false, and the two zeros are equal.\<close>

fun js_lt :: "jsnum \<Rightarrow> jsnum \<Rightarrow> bool" where
  "js_lt NaN b = False"
| "js_lt a NaN = False"
| "js_lt (Fin x) (Fin y) = (val x < val y)"
| "js_lt a NInf = False"
| "js_lt PInf b = False"
| "js_lt NInf b = True"
| "js_lt a PInf = True"

definition js_gt :: "jsnum \<Rightarrow> jsnum \<Rightarrow> bool" where
  "js_gt a b = js_lt b a"

text \<open>Strict equality \<^verbatim>\<open>===\<close> on numbers.\<close>

fun js_eq :: "jsnum \<Rightarrow> jsnum \<Rightarrow> bool" where
  "js_eq (Fin x) (Fin y) = (val x = val y)"
| "js_eq PInf PInf = True"
| "js_eq NInf NInf = True"
| "js_eq a b = False"

definition js_le :: "jsnum \<Rightarrow> jsnum \<Rightarrow> bool" where
  "js_le a b = (js_lt a b \<or> js_eq a b)"

definition js_ge :: "jsnum \<Rightarrow> jsnum \<Rightarrow> bool" where
  "js_ge a b = js_le b a"


text \<open>
  \<^verbatim>\<open>Math.max\<close> and \<^verbatim>\<open>Math.min\<close> return \<open>NaN\<close> when an argument is \<open>NaN\<close>, and take \<open>+0\<close> to be
  larger than \<open>-0\<close>.
\<close>

definition Math_max :: "jsnum \<Rightarrow> jsnum \<Rightarrow> jsnum" where
  "Math_max a b =
     (if a = NaN \<or> b = NaN then NaN
      else if js_lt a b then b
      else if js_lt b a then a
      else if isNegNum a then b else a)"

definition Math_min :: "jsnum \<Rightarrow> jsnum \<Rightarrow> jsnum" where
  "Math_min a b =
     (if a = NaN \<or> b = NaN then NaN
      else if js_lt b a then b
      else if js_lt a b then a
      else if isNegNum a then a else b)"

text \<open>
  \<^verbatim>\<open>Math.floor\<close> and \<^verbatim>\<open>Math.ceil\<close> are exact (the floor and the ceiling of a double are
  doubles) and keep a zero; the ceiling of a number in \<open>(-1, 0)\<close> is \<open>-0\<close>.
\<close>

fun Math_floor :: "jsnum \<Rightarrow> jsnum" where
  "Math_floor (Fin x) = Fin (if val x = 0 then x else D (of_int \<lfloor>val x\<rfloor>))"
| "Math_floor a = a"

fun Math_ceil :: "jsnum \<Rightarrow> jsnum" where
  "Math_ceil (Fin x) =
     Fin (if val x = 0 then x
          else if - 1 < val x \<and> val x < 0 then negZero
          else D (of_int \<lceil>val x\<rceil>))"
| "Math_ceil a = a"

text \<open>
  \<^verbatim>\<open>Math.sin\<close> is implementation-approximated: on a finite non-zero argument it returns
  the double the host's sine function \<open>msin\<close> gives, a parameter of the model. A zero is
  returned as it is, and an infinity or \<open>NaN\<close> gives \<open>NaN\<close>. \<^verbatim>\<open>Math.PI\<close> is the double nearest
  to \<open>\<pi>\<close>.
\<close>

fun Math_sin :: "(double \<Rightarrow> double) \<Rightarrow> jsnum \<Rightarrow> jsnum" where
  "Math_sin msin (Fin x) = Fin (if val x = 0 then x else msin x)"
| "Math_sin msin a = NaN"

definition Math_PI :: double where
  "Math_PI = D (884279719003555 / 281474976710656)"

section \<open>Data model\<close>

text \<open>
  The runtime configuration arrives as a JSON document, so its numbers are finite
  doubles. Fields the source reads with a default (\<^verbatim>\<open>spikeProbability = 0.1\<close>,
  \<^verbatim>\<open>initialUsers = baseLoad\<close>, \<^verbatim>\<open>runtimeConfig.userPatterns || {...}\<close>,
  \<^verbatim>\<open>!config.userResources\<close>) are optional. The field \<^verbatim>\<open>podResources\<close> is read by
  \<^verbatim>\<open>scaleReplicas\<close> into a constant that is never used, and is left out.
\<close>

record user_load =
  load_cpu :: double
  load_memory :: double

record user_resources =
  res_cpu :: double
  res_memory :: double

record load_profile =
  pattern :: string
  baseLoad :: double
  amplitude :: double
  period :: double
  spikeProbability :: "double option"
  spikeMultiplier :: "double option"
  maxUsers :: double
  userGrowthRate :: double
  initialUsers :: "double option"

record runtime_config =
  userPatterns :: "(string \<times> user_load) list option"
  userResources :: "user_resources option"
  defaultLoadProfile :: load_profile
  cpuThreshold :: double
  memoryThreshold :: double
  minReplicas :: double
  maxReplicas :: double

record UserSession =
  session_id :: string
  session_type :: string
  podName :: "string option"





record resource_total =
  total_cpu :: jsnum
  total_memory :: jsnum



datatype js_error = TypeError | ReferenceError | RangeError

section \<open>Unit parsers\<close>

text \<open>
  A string is a list of code units below 256 (the Latin-1 range). \<^verbatim>\<open>parseInt(s)\<close> with no
  radix skips leading white space, reads an optional sign, switches to radix 16 after a
  prefix \<^verbatim>\<open>0x\<close> or \<^verbatim>\<open>0X\<close>, and reads the longest run of digits of the radix; when that
  run is empty the result is \<open>NaN\<close>, and otherwise the double nearest to the integer the
  digits denote, negated after a minus sign (so \<^verbatim>\<open>"-0"\<close> gives \<open>-0\<close>). For a decimal numeral
  of more than 20 significant digits the language lets an implementation read the digits
  after the 20th as zeros; the model rounds the exact integer.
\<close>

definition isWhiteSpace :: "char \<Rightarrow> bool" where
  "isWhiteSpace c = (c \<in> set [CHR 0x09, CHR 0x0A, CHR 0x0B, CHR 0x0C, CHR 0x0D, CHR 0x20, CHR 0xA0])"

definition digitValue :: "char \<Rightarrow> nat option" where
  "digitValue c =
     (let n = (of_char c :: nat) in
      if 48 \<le> n \<and> n \<le> 57 then Some (n - 48)
      else if 97 \<le> n \<and> n \<le> 122 then Some (n - 87)
      else if 65 \<le> n \<and> n \<le> 90 then Some (n - 55)
      else None)"

definition isRadixDigit :: "nat \<Rightarrow> char \<Rightarrow> bool" where
  "isRadixDigit R c = (case digitValue c of None \<Rightarrow> False | Some v \<Rightarrow> v < R)"

definition radixValue :: "nat \<Rightarrow> string \<Rightarrow> nat" where
  "radixValue R ds =
     foldl (\<lambda>acc c. acc * R + (case digitValue c of None \<Rightarrow> 0 | Some v \<Rightarrow> v)) 0 ds"

definition parseInt :: "string \<Rightarrow> jsnum" where
  "parseInt inputString =
     (let S = dropWhile isWhiteSpace inputString;
          negative = (S \<noteq> [] \<and> hd S = CHR ''-'');
          S1 = (if S \<noteq> [] \<and> (hd S = CHR ''+'' \<or> hd S = CHR ''-'') then tl S else S);
          hex = (take 2 S1 = ''0x'' \<or> take 2 S1 = ''0X'');
          R = (if hex then 16 else 10);
          S2 = (if hex then drop 2 S1 else S1);
          Z = takeWhile (isRadixDigit R) S2
      in if Z = [] then NaN
         else if negative then js_neg (fl False (real (radixValue R Z)))
         else fl False (real (radixValue R Z)))"

definition endsWith :: "string \<Rightarrow> string \<Rightarrow> bool" where
  "endsWith s searchString =
     (length searchString \<le> length s \<and> drop (length s - length searchString) s = searchString)"

definition parseMemory :: "string \<Rightarrow> jsnum" where
  "parseMemory memoryStr =
     (let v = parseInt memoryStr in
      if endsWith memoryStr ''Gi'' then js_mul v (Fin (D 1024))
      else if endsWith memoryStr ''Mi'' then v
      else v)"

definition parseCPU :: "string \<Rightarrow> jsnum" where
  "parseCPU cpuStr =
     (let v = parseInt cpuStr in
      if endsWith cpuStr ''m'' then v
      else js_mul v (Fin (D 1000)))"

text \<open>
  The inputs whose prefix is not a decimal integer: after the leading white space and an
  optional sign, the string is empty or does not start with a decimal digit.
\<close>

definition noDecimalPrefix :: "string \<Rightarrow> bool" where
  "noDecimalPrefix s =
     (let S = dropWhile isWhiteSpace s;
          S1 = (if S \<noteq> [] \<and> (hd S = CHR ''+'' \<or> hd S = CHR ''-'') then tl S else S)
      in S1 = [] \<or> \<not> isRadixDigit 10 (hd S1))"

text \<open>The decimal numeral of a natural number, as \<^verbatim>\<open>String(n)\<close> prints it.\<close>

definition digitChar :: "nat \<Rightarrow> char" where
  "digitChar d = ''0123456789'' ! d"

function decimal :: "nat \<Rightarrow> string" where
  "decimal n = (if n < 10 then [digitChar n] else decimal (n div 10) @ [digitChar (n mod 10)])"
  by pat_completeness auto
termination
  by (relation "measure id") auto

declare decimal.simps [simp del]

text \<open>
  The suffixes after which \<^verbatim>\<open>parseInt\<close> reads exactly the decimal numeral of \<open>N\<close>: the suffix
  does not start with a digit, nor with \<^verbatim>\<open>x\<close> or \<^verbatim>\<open>X\<close> after the numeral \<^verbatim>\<open>0\<close> (which would
  make a hexadecimal prefix).
\<close>

definition plainSuffix :: "nat \<Rightarrow> string \<Rightarrow> bool" where
  "plainSuffix N suf =
     (suf = [] \<or>
      (\<not> isRadixDigit 10 (hd suf) \<and> (0 < N \<or> (hd suf \<noteq> CHR ''x'' \<and> hd suf \<noteq> CHR ''X''))))"

section \<open>Resource estimation\<close>

definition defaultUserPatterns :: "(string \<times> user_load) list" where
  "defaultUserPatterns =
     [(''light'', \<lparr>load_cpu = D (1 / 10), load_memory = D (7 / 10)\<rparr>),
      (''medium'', \<lparr>load_cpu = D (1 / 2), load_memory = D 1\<rparr>),
      (''heavy'', \<lparr>load_cpu = D (8 / 10), load_memory = D (3 / 2)\<rparr>)]"

text \<open>
  An object with string keys is an association list of its own properties, with distinct
  keys. Reading a key of a plain object gives the own property when there is one, the
  property inherited from \<^verbatim>\<open>Object.prototype\<close> when the key names one (a function, or the
  prototype itself for \<^verbatim>\<open>__proto__\<close>: truthy, and without a \<^verbatim>\<open>cpu\<close> or \<^verbatim>\<open>memory\<close> property),
  and \<^verbatim>\<open>undefined\<close> otherwise.
\<close>

datatype 'a property = Own 'a | Inherited | Undefined

definition objectPrototypeKeys :: "string list" where
  "objectPrototypeKeys =
     [''constructor'', ''__defineGetter__'', ''__defineSetter__'', ''hasOwnProperty'',
      ''__lookupGetter__'', ''__lookupSetter__'', ''isPrototypeOf'', ''propertyIsEnumerable'',
      ''toString'', ''valueOf'', ''__proto__'', ''toLocaleString'']"

definition getProperty :: "(string \<times> 'a) list \<Rightarrow> string \<Rightarrow> 'a property" where
  "getProperty obj key =
     (case map_of obj key of
        Some v \<Rightarrow> Own v
      | None \<Rightarrow> if key \<in> set objectPrototypeKeys then Inherited else Undefined)"

definition generateUserLoad :: "string \<Rightarrow> runtime_config \<Rightarrow> user_load property" where
  "generateUserLoad userType runtimeConfig =
     (let patterns = (case userPatterns runtimeConfig of
                        None \<Rightarrow> defaultUserPatterns | Some p \<Rightarrow> p)
      in case getProperty patterns userType of
           Undefined \<Rightarrow> getProperty patterns ''medium''
         | found \<Rightarrow> found)"

text \<open>
  One step of the \<^verbatim>\<open>reduce\<close> in \<^verbatim>\<open>calculateResourcesForUsers\<close>. Reading \<^verbatim>\<open>.cpu\<close> of an
  undefined user load throws a \<open>TypeError\<close>; reading it from an inherited property gives
  \<^verbatim>\<open>undefined\<close>, which the multiplication converts to \<open>NaN\<close>.
\<close>

definition loadFactor :: "(user_load \<Rightarrow> double) \<Rightarrow> user_load property \<Rightarrow> jsnum" where
  "loadFactor field p = (case p of Own l \<Rightarrow> Fin (field l) | _ \<Rightarrow> NaN)"

definition addUser ::
  "runtime_config \<Rightarrow> user_resources \<Rightarrow> resource_total \<Rightarrow> UserSession \<Rightarrow> js_error + resource_total" where
  "addUser config ur acc user =
     (let userLoad = generateUserLoad (session_type user) config;
          cpuUsage = js_mul (js_div (Fin (res_cpu ur)) (Fin (D 100))) (Fin (D 1000));
          memoryUsage = js_mul (js_div (Fin (res_memory ur)) (Fin (D 100))) (Fin (D 1024))
      in if userLoad = Undefined then Inl TypeError
         else Inr \<lparr>total_cpu = js_add (total_cpu acc) (js_mul cpuUsage (loadFactor load_cpu userLoad)),
                   total_memory = js_add (total_memory acc)
                                    (js_mul memoryUsage (loadFactor load_memory userLoad))\<rparr>)"





section \<open>Pod assignment\<close>









section \<open>Replica scaling\<close>

definition scaleReplicas ::
  "jsnum \<Rightarrow> jsnum \<Rightarrow> jsnum \<Rightarrow> jsnum \<Rightarrow> runtime_config \<Rightarrow> jsnum" where
  "scaleReplicas currentReplicas avgCpu avgMemory totalUsers config =
     (let cpuDesiredReplicas =
            Math_ceil (js_mul currentReplicas (js_div avgCpu (Fin (cpuThreshold config))));
          memoryDesiredReplicas =
            Math_ceil (js_mul currentReplicas (js_div avgMemory (Fin (memoryThreshold config))));
          desiredReplicas = Math_max cpuDesiredReplicas memoryDesiredReplicas
      in Math_min (Math_max desiredReplicas (Fin (minReplicas config)))
                  (Fin (maxReplicas config)))"

section \<open>Load generation\<close>

text \<open>
  \<^verbatim>\<open>Math.random()\<close> is an input of the model: \<open>rnd k\<close> is the value of the \<open>k\<close>-th call
  (counting from 0) made during the operation, a double in \<open>[0, 1)\<close>.

  \<open>patternLoad\<close> is the \<^verbatim>\<open>switch\<close> statement of \<^verbatim>\<open>generateLoad\<close>; \<open>generateLoad\<close> clamps
  and floors its value.
\<close>

definition initialUsersOf :: "load_profile \<Rightarrow> double" where
  "initialUsersOf p = (case initialUsers p of None \<Rightarrow> baseLoad p | Some v \<Rightarrow> v)"

definition patternLoad ::
  "(double \<Rightarrow> double) \<Rightarrow> string \<Rightarrow> double \<Rightarrow> load_profile \<Rightarrow> (nat \<Rightarrow> double) \<Rightarrow> jsnum" where
  "patternLoad msin pat time p rnd =
     (let base = Fin (baseLoad p);
          amp = Fin (amplitude p);
          per = Fin (period p);
          spikeProb = Fin (case spikeProbability p of None \<Rightarrow> D (1 / 10) | Some v \<Rightarrow> v);
          spikeMult = Fin (case spikeMultiplier p of None \<Rightarrow> D 2 | Some v \<Rightarrow> v);
          maxU = Fin (maxUsers p);
          rate = Fin (userGrowthRate p);
          initU = Fin (initialUsersOf p);
          t = Fin time
      in if pat = ''linear'' then
           (let timeInMinutes = js_div (js_mod t (js_mul (Fin (D 24)) (Fin (D 3600)))) (Fin (D 60));
                load = js_add initU (js_mul rate timeInMinutes)
            in if js_ge load maxU then maxU else load)
         else if pat = ''sine'' then
           js_add base
             (js_mul amp
                (Math_sin msin (js_div (js_mul (js_mul (Fin (D 2)) (Fin Math_PI)) t) per)))
         else if pat = ''spike'' then
           js_add base (if js_lt (js_mod t per) (js_div per (Fin (D 10))) then amp else Fin (D 0))
         else if pat = ''sawtooth'' then
           js_add base (js_mul amp (js_div (js_mod t per) per))
         else if pat = ''square'' then
           js_add base
             (if js_eq (js_mod (Math_floor (js_div t (js_div per (Fin (D 2))))) (Fin (D 2)))
                       (Fin (D 0))
              then amp else Fin (D 0))
         else if pat = ''random'' then
           (let hasSpike = js_lt (Fin (rnd 0)) spikeProb;
                baseValue = js_add base (js_mul (js_sub (Fin (rnd 1)) (Fin (D (1 / 2)))) amp)
            in if hasSpike then js_mul baseValue spikeMult else baseValue)
         else if pat = ''daily'' then
           (let hourOfDay =
                  js_div (js_mod t (js_mul (Fin (D 24)) (Fin (D 3600)))) (Fin (D 3600));
                workdayPattern =
                  Math_sin msin
                    (js_div (js_mul (js_mul (Fin (D 2)) (Fin Math_PI)) (js_sub hourOfDay (Fin (D 6))))
                            (Fin (D 24)));
                workdayMultiplier =
                  (if js_ge hourOfDay (Fin (D 8)) \<and> js_le hourOfDay (Fin (D 18)) then Fin (D 1)
                   else Fin (D (3 / 10)))
            in js_add base (js_mul (js_mul amp workdayPattern) workdayMultiplier))
         else base)"

definition generateLoad ::
  "(double \<Rightarrow> double) \<Rightarrow> string \<Rightarrow> double \<Rightarrow> runtime_config \<Rightarrow> (nat \<Rightarrow> double) \<Rightarrow> jsnum" where
  "generateLoad msin pat time runtimeConfig rnd =
     (let p = defaultLoadProfile runtimeConfig;
          load = patternLoad msin pat time p rnd;
          load' = (if pat = ''linear''
                   then Math_max (Fin (initialUsersOf p)) (Math_min load (Fin (maxUsers p)))
                   else Math_max (Fin (D 0)) (Math_min load (Fin (maxUsers p))))
      in Math_floor load')"

section \<open>User population\<close>

text \<open>
  The module has two pieces of state: the variable \<^verbatim>\<open>simulationStartTime\<close> (initially
  \<^verbatim>\<open>null\<close>) and the identifier \<^verbatim>\<open>users\<close>. The module never declares \<^verbatim>\<open>users\<close>: it is bound
  only once \<^verbatim>\<open>resetSimulation\<close> has assigned to it (an implicit global of sloppy mode),
  and reading an unbound identifier throws a \<open>ReferenceError\<close>. \<open>None\<close> in the field
  \<open>users\<close> is the unbound identifier.
\<close>

record sim_state =
  simulationStartTime :: "double option"
  users :: "UserSession list option"

definition initialState :: sim_state where
  "initialState = \<lparr>simulationStartTime = None, users = None\<rparr>"

definition resetSimulation :: "sim_state \<Rightarrow> sim_state" where
  "resetSimulation st = \<lparr>simulationStartTime = None, users = Some []\<rparr>"

definition userTypes :: "string list" where
  "userTypes = [''light'', ''medium'', ''heavy'']"

text \<open>The length of an array as a number: an integer below \<open>2^32\<close>, hence exact.\<close>

definition lengthNum :: "'a list \<Rightarrow> jsnum" where
  "lengthNum xs = Fin (D (real (length xs)))"

text \<open>
  \<^verbatim>\<open>userTypes[Math.floor(Math.random() * userTypes.length)]\<close>: for a draw in \<open>[0, 1)\<close> the
  index is 0, 1 or 2; any other index reads \<^verbatim>\<open>undefined\<close>.
\<close>

definition randomType :: "double \<Rightarrow> string" where
  "randomType r =
     (case Math_floor (js_mul (Fin r) (lengthNum userTypes)) of
        Fin i \<Rightarrow> if val i = 0 then userTypes ! 0
                 else if val i = 1 then userTypes ! 1
                 else if val i = 2 then userTypes ! 2
                 else ''undefined''
      | _ \<Rightarrow> ''undefined'')"

definition newUser :: "nat \<Rightarrow> double \<Rightarrow> UserSession" where
  "newUser n r = \<lparr>session_id = ''user-'' @ decimal n, session_type = randomType r, podName = None\<rparr>"

text \<open>
  The two loops that adjust the population. \<^verbatim>\<open>push\<close> on an array of the maximal length
  \<open>2^32 - 1\<close> throws a \<open>RangeError\<close> and leaves the length as it is. The second loop does not
  end when the target is negative: \<^verbatim>\<open>pop\<close> on an empty array changes nothing. Not
  returning is the value \<open>None\<close>; an error comes with the array as the loop left it.
\<close>

definition maxArrayLength :: nat where
  "maxArrayLength = 2 ^ 32 - 1"

partial_function (option) growUsers ::
  "(nat \<Rightarrow> double) \<Rightarrow> nat \<Rightarrow> jsnum \<Rightarrow> UserSession list
     \<Rightarrow> (js_error option \<times> UserSession list) option" where
  "growUsers rnd k targetUsers us =
     (if js_lt (lengthNum us) targetUsers
      then (if maxArrayLength \<le> length us then Some (Some RangeError, us)
            else growUsers rnd (Suc k) targetUsers (us @ [newUser (length us + 1) (rnd k)]))
      else Some (None, us))"

partial_function (option) shrinkUsers ::
  "jsnum \<Rightarrow> UserSession list \<Rightarrow> UserSession list option" where
  "shrinkUsers targetUsers us =
     (if js_gt (lengthNum us) targetUsers
      then shrinkUsers targetUsers (butlast us)
      else Some us)"

definition adjustUsers ::
  "(nat \<Rightarrow> double) \<Rightarrow> nat \<Rightarrow> jsnum \<Rightarrow> UserSession list
     \<Rightarrow> (js_error option \<times> UserSession list) option" where
  "adjustUsers rnd k targetUsers us =
     (case growUsers rnd k targetUsers us of
        None \<Rightarrow> None
      | Some (Some e, us1) \<Rightarrow> Some (Some e, us1)
      | Some (None, us1) \<Rightarrow>
          (case shrinkUsers targetUsers us1 of
             None \<Rightarrow> None
           | Some us2 \<Rightarrow> Some (None, us2)))"

text \<open>
  The time origin a tick at \<open>currentTime\<close> works with: \<^verbatim>\<open>if (!simulationStartTime)\<close> sets
  the variable when it is \<^verbatim>\<open>null\<close> or zero.
\<close>

definition startTimeAt :: "double \<Rightarrow> sim_state \<Rightarrow> double" where
  "startTimeAt currentTime st =
     (case simulationStartTime st of
        None \<Rightarrow> currentTime
      | Some t \<Rightarrow> if val t = 0 then currentTime else t)"

definition linearTarget :: "runtime_config \<Rightarrow> double \<Rightarrow> sim_state \<Rightarrow> jsnum" where
  "linearTarget runtimeConfig currentTime st =
     (let p = defaultLoadProfile runtimeConfig;
          elapsedMinutes =
            js_div (js_sub (Fin currentTime) (Fin (startTimeAt currentTime st))) (Fin (D 60))
      in Math_min (Fin (maxUsers p))
           (Math_floor (js_add (Fin (baseLoad p)) (js_mul (Fin (userGrowthRate p)) elapsedMinutes))))"

text \<open>
  \<open>simulateUserActivity\<close> takes the host's sine function, the clock reading
  \<^verbatim>\<open>Date.now() / 1000\<close> and the random draws as arguments. Its value is \<open>None\<close> when the
  call does not return, and otherwise the outcome (the error thrown, or the population
  returned) with the module state the call leaves behind. In the branch of the other
  patterns \<^verbatim>\<open>generateLoad\<close> runs, and makes its two draws for the pattern \<^verbatim>\<open>random\<close>, before
  \<^verbatim>\<open>users\<close> is read.
\<close>

definition finishTick ::
  "sim_state \<Rightarrow> (js_error option \<times> UserSession list) option
     \<Rightarrow> ((js_error + UserSession list) \<times> sim_state) option" where
  "finishTick st r =
     (case r of
        None \<Rightarrow> None
      | Some (Some e, us') \<Rightarrow> Some (Inl e, st\<lparr>users := Some us'\<rparr>)
      | Some (None, us') \<Rightarrow> Some (Inr us', st\<lparr>users := Some us'\<rparr>))"

definition simulateUserActivity ::
  "(double \<Rightarrow> double) \<Rightarrow> runtime_config \<Rightarrow> double \<Rightarrow> (nat \<Rightarrow> double) \<Rightarrow> sim_state
     \<Rightarrow> ((js_error + UserSession list) \<times> sim_state) option" where
  "simulateUserActivity msin runtimeConfig currentTime rnd st =
     (let st1 = st\<lparr>simulationStartTime := Some (startTimeAt currentTime st)\<rparr>;
          pat = pattern (defaultLoadProfile runtimeConfig)
      in if pat = ''linear'' then
           (let targetUsers = linearTarget runtimeConfig currentTime st
            in case users st1 of
                 None \<Rightarrow> Some (Inl ReferenceError, st1)
               | Some us \<Rightarrow> finishTick st1 (adjustUsers rnd 0 targetUsers us))
         else
           (let st2 = st1\<lparr>simulationStartTime := None\<rparr>;
                targetUsers = Math_floor (generateLoad msin pat currentTime runtimeConfig rnd);
                k = (if pat = ''random'' then 2 else 0)
            in case users st2 of
                 None \<Rightarrow> Some (Inl ReferenceError, st2)
               | Some us \<Rightarrow> finishTick st2 (adjustUsers rnd k targetUsers us)))"

section \<open>Example inputs\<close>

text \<open>Concrete inputs at which the theorems below are instantiated.\<close>

definition exampleProfile :: load_profile where
  "exampleProfile =
     \<lparr>pattern = ''linear'', baseLoad = D 2, amplitude = D 4, period = D 60,
      spikeProbability = None, spikeMultiplier = None, maxUsers = D 10,
      userGrowthRate = D 1, initialUsers = None\<rparr>"

definition exampleConfig :: runtime_config where
  "exampleConfig =
     \<lparr>userPatterns = None, userResources = Some \<lparr>res_cpu = D 50, res_memory = D 50\<rparr>,
      defaultLoadProfile = exampleProfile,
      cpuThreshold = D 50, memoryThreshold = D 50, minReplicas = D 1, maxReplicas = D 10\<rparr>"







text \<open>A host sine for the examples: the double nearest to the exact sine.\<close>

definition exampleSin :: "double \<Rightarrow> double" where
  "exampleSin x = D (sin (val x))"

section \<open>Properties\<close>

subsection \<open>Rounding to the nearest double\<close>

lemma rhe_of_int [simp]: "rhe (of_int n) = n"
  by (simp add: rhe_def)

lemma rhe_0 [simp]: "rhe 0 = 0"
  by (simp add: rhe_def)

lemma rhe_lower: "\<lfloor>q\<rfloor> \<le> rhe q"
  by (simp add: rhe_def Let_def)

lemma rhe_upper: "rhe q \<le> \<lfloor>q\<rfloor> + 1"
  by (simp add: rhe_def Let_def)

lemma rhe_same_floor:
  assumes "q \<le> r" and "\<lfloor>q\<rfloor> = \<lfloor>r\<rfloor>"
  shows "rhe q \<le> rhe r"
proof -
  have "q - of_int \<lfloor>q\<rfloor> \<le> r - of_int \<lfloor>r\<rfloor>"
    using assms by simp
  then show ?thesis
    using assms(2) by (auto simp: rhe_def Let_def)
qed

lemma rhe_mono:
  assumes "q \<le> r"
  shows "rhe q \<le> rhe r"
proof (cases "\<lfloor>q\<rfloor> = \<lfloor>r\<rfloor>")
  case True
  then show ?thesis using assms by (rule rhe_same_floor [rotated])
next
  case False
  then have "\<lfloor>q\<rfloor> < \<lfloor>r\<rfloor>"
    using floor_mono [OF assms] by linarith
  then have "rhe q \<le> \<lfloor>r\<rfloor>"
    using rhe_upper [of q] by linarith
  then show ?thesis
    using rhe_lower [of r] by linarith
qed

lemma rhe_nonneg: "0 \<le> q \<Longrightarrow> 0 \<le> rhe q"
  using rhe_mono [of 0 q] by simp

lemma rhe_le: "q \<le> of_int n \<Longrightarrow> rhe q \<le> n"
  using rhe_mono [of q "of_int n"] by simp

lemma rhe_ge: "of_int n \<le> q \<Longrightarrow> n \<le> rhe q"
  using rhe_mono [of "of_int n" q] by simp

lemma pow2_pos [simp]: "0 < (2::real) powi k"
  by simp

lemma pow2_powr: "(2::real) powr (of_int k) = 2 powi k"
  by (simp add: powr_real_of_int')

lemma pow2_powr1: "(2::real) powr (of_int k + 1) = 2 powi (k + 1)"
  using pow2_powr [of "k + 1"] by simp

lemma pow2_less_iff: "(2::real) powi j < 2 powi k \<longleftrightarrow> j < k"
  by (metis linorder_not_less one_le_numeral one_less_numeral_iff power_int_increasing
      power_int_strict_increasing semiring_norm(76))

lemma pow2_le_iff: "(2::real) powi j \<le> 2 powi k \<longleftrightarrow> j \<le> k"
  by (metis linorder_not_less pow2_less_iff)

lemma expo_ge: "emin \<le> expo x"
  by (simp add: expo_def)

lemma floor_log2:
  assumes "x \<noteq> 0"
  shows "2 powi \<lfloor>log 2 \<bar>x\<bar>\<rfloor> \<le> \<bar>x\<bar>" and "\<bar>x\<bar> < 2 powi (\<lfloor>log 2 \<bar>x\<bar>\<rfloor> + 1)"
proof -
  have p: "0 < \<bar>x\<bar>" using assms by simp
  have "(2::real) powr (of_int \<lfloor>log 2 \<bar>x\<bar>\<rfloor>) \<le> \<bar>x\<bar> \<and>
        \<bar>x\<bar> < 2 powr (of_int \<lfloor>log 2 \<bar>x\<bar>\<rfloor> + 1)"
    using floor_log_eq_powr_iff [of "\<bar>x\<bar>" 2 "\<lfloor>log 2 \<bar>x\<bar>\<rfloor>"] p by simp
  then show "2 powi \<lfloor>log 2 \<bar>x\<bar>\<rfloor> \<le> \<bar>x\<bar>" and "\<bar>x\<bar> < 2 powi (\<lfloor>log 2 \<bar>x\<bar>\<rfloor> + 1)"
    unfolding pow2_powr pow2_powr1 by blast+
qed

lemma floor_log2_eq:
  assumes "2 powi k \<le> \<bar>x\<bar>" and "\<bar>x\<bar> < 2 powi (k + 1)"
  shows "\<lfloor>log 2 \<bar>x\<bar>\<rfloor> = k"
proof -
  have p: "0 < \<bar>x\<bar>"
    using assms(1) pow2_pos [of k] by linarith
  have "(2::real) powr (of_int k) \<le> \<bar>x\<bar> \<and> \<bar>x\<bar> < 2 powr (of_int k + 1)"
    unfolding pow2_powr pow2_powr1 using assms by blast
  then show ?thesis
    using floor_log_eq_powr_iff [of "\<bar>x\<bar>" 2 k] p by simp
qed

lemma expo_eq:
  assumes "2 powi k \<le> \<bar>x\<bar>" and "\<bar>x\<bar> < 2 powi (k + 1)"
  shows "expo x = max k emin"
  using floor_log2_eq [OF assms] by (simp add: expo_def)

lemma expo_upper:
  assumes "x \<noteq> 0"
  shows "\<bar>x\<bar> < 2 powi (expo x + 1)"
proof -
  have "(2::real) powi (\<lfloor>log 2 \<bar>x\<bar>\<rfloor> + 1) \<le> 2 powi (expo x + 1)"
    by (simp add: pow2_le_iff expo_def)
  then show ?thesis
    using floor_log2(2) [OF assms] by linarith
qed

lemma expo_lower:
  assumes "x \<noteq> 0" and "emin < expo x"
  shows "2 powi (expo x) \<le> \<bar>x\<bar>"
proof -
  have "expo x = \<lfloor>log 2 \<bar>x\<bar>\<rfloor>"
    using assms(2) by (simp add: expo_def max_def split: if_splits)
  then show ?thesis
    using floor_log2(1) [OF assms(1)] by simp
qed

lemma expo_mono:
  assumes "x \<noteq> 0" and "\<bar>x\<bar> \<le> \<bar>y\<bar>"
  shows "expo x \<le> expo y"
proof -
  have "log 2 \<bar>x\<bar> \<le> log 2 \<bar>y\<bar>"
    using assms by simp
  then have "\<lfloor>log 2 \<bar>x\<bar>\<rfloor> \<le> \<lfloor>log 2 \<bar>y\<bar>\<rfloor>"
    by (rule floor_mono)
  then show ?thesis
    by (simp add: expo_def)
qed

lemma expo_minus [simp]: "expo (- x) = expo x"
  by (simp add: expo_def)

lemma ulp_minus [simp]: "ulp (- x) = ulp x"
  by (simp add: ulp_def)

lemma ulp_pos [simp]: "0 < ulp x"
  by (simp add: ulp_def)

lemma round64_minus: "round64 (- x) = - round64 x"
  by (simp add: round64_def sgn_minus)

lemma round64_0 [simp]: "round64 0 = 0"
  by (simp add: round64_def)

lemma round64_pos_eq: "0 < x \<Longrightarrow> round64 x = of_int (rhe (x / ulp x)) * ulp x"
  by (simp add: round64_def)

lemma ulp_nonneg [simp]: "0 \<le> ulp x"
  using ulp_pos [of x] by linarith

lemma round64_nonneg:
  assumes "0 \<le> x"
  shows "0 \<le> round64 x"
proof (cases "x = 0")
  case True
  then show ?thesis by simp
next
  case False
  then have "0 \<le> rhe (x / ulp x)"
    using assms by (intro rhe_nonneg) simp
  then show ?thesis
    using assms False by (simp add: round64_pos_eq)
qed

lemma round64_pos_mono:
  assumes "0 < x" and "x \<le> y"
  shows "round64 x \<le> round64 y"
proof -
  have y: "0 < y" using assms by linarith
  have e: "expo x \<le> expo y"
    using expo_mono [of x y] assms by simp
  show ?thesis
  proof (cases "expo x = expo y")
    case True
    then have u: "ulp x = ulp y"
      by (simp add: ulp_def)
    have "x / ulp y \<le> y / ulp y"
      using assms(2) by (intro divide_right_mono) simp_all
    then have "rhe (x / ulp y) \<le> rhe (y / ulp y)"
      by (rule rhe_mono)
    then show ?thesis
      using assms y u by (simp add: round64_pos_eq)
  next
    case False
    then have lt: "expo x < expo y"
      using e by simp
    have "x < 2 powi (expo x + 1)"
      using expo_upper [of x] assms(1) by simp
    also have "\<dots> = 2 ^ 53 * ulp x"
      by (simp add: ulp_def power_int_add power_int_diff)
    finally have "x / ulp x \<le> of_int (2 ^ 53)"
      by (simp add: pos_divide_le_eq)
    then have "rhe (x / ulp x) \<le> 2 ^ 53"
      by (rule rhe_le)
    then have "of_int (rhe (x / ulp x)) * ulp x \<le> 2 ^ 53 * ulp x"
      by (simp add: mult_right_mono)
    also have "\<dots> = 2 powi (expo x + 1)"
      by (simp add: ulp_def power_int_add power_int_diff)
    also have "\<dots> \<le> 2 powi (expo y)"
      using lt by (simp add: pow2_le_iff)
    finally have a: "round64 x \<le> 2 powi (expo y)"
      using assms(1) by (simp add: round64_pos_eq)
    have "emin < expo y"
      using lt expo_ge [of x] by linarith
    then have "2 powi (expo y) \<le> y"
      using expo_lower [of y] y by simp
    moreover have "2 powi (expo y) = 2 ^ 52 * ulp y"
      by (simp add: ulp_def power_int_add power_int_diff)
    ultimately have "of_int (2 ^ 52) \<le> y / ulp y"
      by (simp add: pos_le_divide_eq)
    then have "2 ^ 52 \<le> rhe (y / ulp y)"
      by (rule rhe_ge)
    then have "2 ^ 52 * ulp y \<le> of_int (rhe (y / ulp y)) * ulp y"
      by (simp add: mult_right_mono)
    then have "2 powi (expo y) \<le> round64 y"
      using y \<open>2 powi (expo y) = 2 ^ 52 * ulp y\<close> by (simp add: round64_pos_eq)
    then show ?thesis
      using a by linarith
  qed
qed

lemma round64_mono:
  assumes "x \<le> y"
  shows "round64 x \<le> round64 y"
proof -
  consider "0 < x" | "x \<le> 0" "0 \<le> y" | "y < 0"
    using assms by linarith
  then show ?thesis
  proof cases
    case 1
    then show ?thesis using assms by (rule round64_pos_mono)
  next
    case 2
    have "round64 x \<le> 0"
      using round64_nonneg [of "- x"] 2(1) by (simp add: round64_minus)
    then show ?thesis
      using round64_nonneg [OF 2(2)] by linarith
  next
    case 3
    then have "round64 (- y) \<le> round64 (- x)"
      using assms by (intro round64_pos_mono) simp_all
    then show ?thesis
      by (simp add: round64_minus)
  qed
qed

lemma round64_abs: "round64 \<bar>x\<bar> = \<bar>round64 x\<bar>"
proof (cases "0 \<le> x")
  case True
  then show ?thesis using round64_nonneg [of x] by simp
next
  case False
  then have "0 \<le> round64 (- x)"
    by (intro round64_nonneg) simp
  then show ?thesis
    using False by (simp add: round64_minus)
qed

lemma round64_eval:
  assumes "2 powi e \<le> x" and "x < 2 powi (e + 1)" and "emin \<le> e"
  shows "round64 x = of_int (rhe (x / 2 powi (e - 52))) * 2 powi (e - 52)"
proof -
  have p: "0 < x"
    using assms(1) pow2_pos [of e] by linarith
  then have "expo x = e"
    using expo_eq [of e x] assms by simp
  then show ?thesis
    using p by (simp add: round64_pos_eq ulp_def)
qed

lemma round64_repr_pos:
  assumes "0 < m" and "m < 2 ^ 53" and "emin - 52 \<le> k"
  shows "round64 (of_int m * 2 powi k) = of_int m * 2 powi k"
proof -
  define x where "x = of_int m * (2::real) powi k"
  define U where "U = ulp x"
  have p: "0 < x"
    using assms(1) by (simp add: x_def)
  have Up: "0 < U"
    by (simp add: U_def)
  have "of_int m < (2::real) ^ 53"
    using assms(2) by (metis of_int_less_iff of_int_numeral of_int_power)
  then have "x < 2 ^ 53 * 2 powi k"
    by (simp add: x_def mult_strict_right_mono)
  also have "\<dots> = 2 powi (k + 53)"
    by (simp add: power_int_add)
  finally have lt: "x < 2 powi (k + 53)" .
  have nz: "x \<noteq> 0"
    using p by linarith
  have ab: "\<bar>x\<bar> = x"
    using p by simp
  have "2 powi \<lfloor>log 2 \<bar>x\<bar>\<rfloor> \<le> \<bar>x\<bar>"
    by (rule floor_log2(1) [OF nz])
  then have "(2::real) powi \<lfloor>log 2 \<bar>x\<bar>\<rfloor> < 2 powi (k + 53)"
    using lt unfolding ab by linarith
  then have "\<lfloor>log 2 \<bar>x\<bar>\<rfloor> < k + 53"
    by (simp add: pow2_less_iff)
  then have e: "expo x \<le> k + 52"
    using assms(3) by (simp add: expo_def)
  define j where "j = nat (k + 52 - expo x)"
  have "(2::real) ^ j = 2 powi (int j)"
    by simp
  also have "int j = k + 52 - expo x"
    using e by (simp add: j_def)
  finally have "(2::real) ^ j * 2 powi (expo x - 52) = 2 powi k"
    by (simp flip: power_int_add)
  then have kU: "(2::real) powi k = 2 ^ j * U"
    by (simp add: U_def ulp_def)
  have xU: "x = of_int (m * 2 ^ j) * U"
    by (simp add: x_def kU)
  then have "x / U = of_int (m * 2 ^ j)"
    using Up by simp
  then have "rhe (x / U) = m * 2 ^ j"
    by (metis rhe_of_int)
  then have "round64 x = of_int (m * 2 ^ j) * U"
    using p by (simp add: round64_pos_eq U_def)
  then have "round64 x = x"
    using xU by simp
  then show ?thesis
    by (simp add: x_def)
qed

lemma round64_repr:
  assumes "\<bar>m\<bar> \<le> 2 ^ 53" and "emin - 52 \<le> k"
  shows "round64 (of_int m * 2 powi k) = of_int m * 2 powi k"
proof -
  have pos: "round64 (of_int n * 2 powi k) = of_int n * 2 powi k" if "0 < n" "n \<le> 2 ^ 53" for n :: int
  proof (cases "n = 2 ^ 53")
    case True
    have "round64 (of_int (2 ^ 52) * 2 powi (k + 1)) = of_int (2 ^ 52) * 2 powi (k + 1)"
      using assms(2) by (intro round64_repr_pos) simp_all
    moreover have "of_int (2 ^ 52) * (2::real) powi (k + 1) = of_int (2 ^ 53) * 2 powi k"
      by (simp add: power_int_add)
    ultimately show ?thesis
      using True by simp
  next
    case False
    then show ?thesis
      using that assms(2) by (intro round64_repr_pos) simp_all
  qed
  consider "0 < m" | "m = 0" | "m < 0"
    by linarith
  then show ?thesis
  proof cases
    case 1
    then show ?thesis using pos [of m] assms(1) by simp
  next
    case 2
    then show ?thesis by simp
  next
    case 3
    then have "round64 (of_int (- m) * 2 powi k) = of_int (- m) * 2 powi k"
      using pos [of "- m"] assms(1) by simp
    then show ?thesis
      using round64_minus [of "of_int m * 2 powi k"] by simp
  qed
qed

lemma round64_form:
  "\<exists>m. \<bar>m\<bar> \<le> 2 ^ 53 \<and> round64 x = of_int m * 2 powi (expo x - 52)"
proof (cases "x = 0")
  case True
  then show ?thesis
    by (intro exI [of _ 0]) simp
next
  case False
  let ?n = "rhe (\<bar>x\<bar> / ulp x)"
  have "\<bar>x\<bar> < 2 powi (expo x + 1)"
    using expo_upper [OF False] .
  also have "\<dots> = 2 ^ 53 * ulp x"
    by (simp add: ulp_def power_int_add power_int_diff)
  finally have "\<bar>x\<bar> / ulp x \<le> of_int (2 ^ 53)"
    by (simp add: pos_divide_le_eq)
  then have u: "?n \<le> 2 ^ 53"
    by (rule rhe_le)
  have l: "0 \<le> ?n"
    by (intro rhe_nonneg) simp
  show ?thesis
  proof (cases "0 < x")
    case True
    then show ?thesis
      using u l by (intro exI [of _ ?n]) (simp add: round64_def ulp_def)
  next
    case False
    then have "x < 0" using \<open>x \<noteq> 0\<close> by simp
    then show ?thesis
      using u l by (intro exI [of _ "- ?n"]) (simp add: round64_def ulp_def)
  qed
qed

lemma round64_idem: "round64 (round64 x) = round64 x"
proof -
  obtain m where m: "\<bar>m\<bar> \<le> 2 ^ 53" "round64 x = of_int m * 2 powi (expo x - 52)"
    using round64_form by blast
  have "emin - 52 \<le> expo x - 52"
    using expo_ge [of x] by simp
  then show ?thesis
    using round64_repr [OF m(1), of "expo x - 52"] m(2) by simp
qed

lemma isDouble_round64: "\<bar>round64 x\<bar> < 2 powi emax \<Longrightarrow> isDouble (round64 x)"
  by (simp add: isDouble_def round64_idem)

lemma isDouble_0 [simp]: "isDouble 0"
  by (simp add: isDouble_def)

lemma isDouble_minus [simp]: "isDouble (- x) = isDouble x"
  by (auto simp: isDouble_def round64_minus)

lemma pow2_53: "(2::real) ^ 53 = 2 powi 53"
  by simp

lemma isDouble_of_int:
  assumes "\<bar>n\<bar> \<le> 2 ^ 53"
  shows "isDouble (of_int n)"
proof -
  have "round64 (of_int n * 2 powi 0) = of_int n * 2 powi 0"
    using assms by (intro round64_repr) (simp_all add: emin_def)
  moreover have "\<bar>real_of_int n\<bar> \<le> 2 ^ 53"
    using assms by (metis of_int_abs of_int_le_iff of_int_numeral of_int_power)
  moreover have "(2::real) powi 53 < 2 powi emax"
    by (simp only: pow2_less_iff) (simp add: emax_def)
  ultimately show ?thesis
    unfolding isDouble_def pow2_53 by simp
qed

lemma isDouble_form:
  assumes "isDouble x"
  shows "\<exists>m. \<bar>m\<bar> \<le> 2 ^ 53 \<and> x = of_int m * 2 powi (expo x - 52)"
  using round64_form [of x] assms by (simp add: isDouble_def)


lemma isDouble_floor:
  assumes "isDouble x"
  shows "isDouble (of_int \<lfloor>x\<rfloor>)"
proof -
  define E where "E = expo x - 52"
  obtain m where m: "\<bar>m\<bar> \<le> 2 ^ 53" "x = of_int m * 2 powi E"
    using isDouble_form [OF assms] unfolding E_def by blast
  show ?thesis
  proof (cases "0 \<le> E")
    case True
    define j where "j = nat E"
    have "(2::real) ^ j = 2 powi (int j)"
      by simp
    also have "int j = E"
      using True by (simp add: j_def)
    finally have "x = of_int (m * 2 ^ j)"
      using m(2) by simp
    then have fx: "of_int \<lfloor>x\<rfloor> = x"
      by (metis floor_of_int)
    show ?thesis
      unfolding fx by (rule assms)
  next
    case False
    then have "(2::real) powi E \<le> 2 powi 0"
      by (simp only: pow2_le_iff)
    then have "(2::real) powi E \<le> 1"
      by simp
    moreover have "\<bar>real_of_int m\<bar> \<le> 2 ^ 53"
      using m(1) by (metis of_int_abs of_int_le_iff of_int_numeral of_int_power)
    ultimately have "\<bar>real_of_int m\<bar> * 2 powi E \<le> 2 ^ 53 * 1"
      by (intro mult_mono) simp_all
    moreover have "\<bar>x\<bar> = \<bar>real_of_int m\<bar> * 2 powi E"
      by (simp add: m(2) abs_mult)
    ultimately have "\<bar>x\<bar> \<le> 2 ^ 53"
      by simp
    then have "- (2 ^ 53) \<le> x" "x \<le> 2 ^ 53"
      by linarith+
    then have "- (2 ^ 53) \<le> \<lfloor>x\<rfloor>" "\<lfloor>x\<rfloor> \<le> 2 ^ 53"
      by (simp_all add: le_floor_iff floor_le_iff)
    then have "\<bar>\<lfloor>x\<rfloor>\<bar> \<le> 2 ^ 53"
      by linarith
    then show ?thesis
      by (rule isDouble_of_int)
  qed
qed


lemma round64_small:
  assumes "\<bar>x\<bar> \<le> 2 powi (emax - 1)"
  shows "\<bar>round64 x\<bar> < 2 powi emax"
proof -
  have "round64 (of_int 1 * 2 powi (emax - 1)) = of_int 1 * 2 powi (emax - 1)"
    by (intro round64_repr) (simp_all add: emin_def emax_def)
  then have "round64 (2 powi (emax - 1)) = 2 powi (emax - 1)"
    by simp
  then have "round64 \<bar>x\<bar> \<le> 2 powi (emax - 1)"
    using round64_mono [OF assms] by simp
  moreover have "(2::real) powi (emax - 1) < 2 powi emax"
    by (simp only: pow2_less_iff)
  ultimately show ?thesis
    by (simp add: round64_abs)
qed



subsection \<open>Doubles\<close>

lemma isDouble_val [simp]: "isDouble (val d)"
  using Rep_double [of d] by (simp add: val_def)

lemma val_less_emax: "\<bar>val d\<bar> < 2 powi emax"
  using isDouble_val [of d] unfolding isDouble_def by simp

lemma round64_val [simp]: "round64 (val d) = val d"
  using isDouble_val [of d] unfolding isDouble_def by simp

lemma isNeg_val: "val d \<noteq> 0 \<Longrightarrow> isNeg d = (val d < 0)"
  using Rep_double [of d] by (simp add: val_def isNeg_def)

lemma double_eqI: "val a = val b \<Longrightarrow> isNeg a = isNeg b \<Longrightarrow> a = b"
  by (simp add: val_def isNeg_def Rep_double_inject [symmetric] prod_eq_iff)

lemma val_mkDouble [simp]: "isDouble x \<Longrightarrow> val (mkDouble s x) = x"
  by (simp add: val_def mkDouble_def Abs_double_inverse)

lemma isNeg_mkDouble [simp]:
  "isDouble x \<Longrightarrow> isNeg (mkDouble s x) = (if x = 0 then s else x < 0)"
  by (simp add: isNeg_def mkDouble_def Abs_double_inverse)

lemma mkDouble_val [simp]: "mkDouble (isNeg d) (val d) = d"
  by (rule double_eqI) (auto simp: isNeg_val)

lemma mkDouble_sign: "x \<noteq> 0 \<Longrightarrow> mkDouble s x = mkDouble False x"
  by (simp add: mkDouble_def)

lemma val_negZero [simp]: "val negZero = 0"
  by (simp add: negZero_def)

lemma isNeg_negZero [simp]: "isNeg negZero"
  by (simp add: negZero_def)

lemma fl_cases [case_names pinf ninf fin]:
  obtains "fl s r = PInf" and "0 \<le> r" and "2 powi emax \<le> round64 r"
  | "fl s r = NInf" and "r < 0" and "round64 r \<le> - (2 powi emax)"
  | "fl s r = Fin (mkDouble s (round64 r))" and "\<bar>round64 r\<bar> < 2 powi emax"
proof (cases "2 powi emax \<le> \<bar>round64 r\<bar>")
  case False
  then show ?thesis using that(3) by (simp add: fl_def Let_def)
next
  case True
  show ?thesis
  proof (cases "r < 0")
    case neg: True
    then have "round64 r \<le> 0" using round64_nonneg [of "- r"] by (simp add: round64_minus)
    with True neg show ?thesis using that(2) by (simp add: fl_def Let_def)
  next
    case nn: False
    then have "0 \<le> round64 r" using round64_nonneg [of r] by simp
    with True nn show ?thesis using that(1) by (simp add: fl_def Let_def)
  qed
qed

lemma fl_not_NaN [simp]: "fl s r \<noteq> NaN"
  by (cases s r rule: fl_cases) simp_all

lemma fl_inRange: "\<bar>round64 r\<bar> < 2 powi emax \<Longrightarrow> fl s r = Fin (mkDouble s (round64 r))"
  by (simp add: fl_def Let_def)

lemma fl_isDouble [simp]: "isDouble r \<Longrightarrow> fl s r = Fin (mkDouble s r)"
  by (simp add: fl_def Let_def isDouble_def)

lemma val_fl: "fl s r = Fin d \<Longrightarrow> val d = round64 r"
  by (cases s r rule: fl_cases) (auto simp: isDouble_round64)

lemma D_isDouble: "isDouble x \<Longrightarrow> D x = mkDouble False x"
  by (simp add: D_def)

lemma val_D [simp]: "isDouble x \<Longrightarrow> val (D x) = x"
  by (simp add: D_isDouble)

lemma isNeg_D [simp]: "isDouble x \<Longrightarrow> isNeg (D x) = (x < 0)"
  by (simp add: D_isDouble)

lemma D_val: "val d \<noteq> 0 \<or> \<not> isNeg d \<Longrightarrow> D (val d) = d"
  by (rule double_eqI) (auto simp: isNeg_val)

lemma isDouble_numeral [simp]:
  "(numeral k :: real) \<le> 9007199254740992 \<Longrightarrow> isDouble (numeral k)"
  using isDouble_of_int [of "numeral k"] by simp

lemma isDouble_1 [simp]: "isDouble 1"
  using isDouble_of_int [of 1] by simp

lemma isDouble_of_nat: "n \<le> 2 ^ 53 \<Longrightarrow> isDouble (real n)"
  using isDouble_of_int [of "int n"] by simp


lemma fl_D: "\<bar>round64 x\<bar> < 2 powi emax \<Longrightarrow> fl False x = Fin (D x)"
  by (simp add: D_def fl_inRange)

lemma js_mul_NaN_right [simp]: "js_mul a NaN = NaN"
  by (cases a) simp_all

lemma js_add_NaN_right [simp]: "js_add a NaN = NaN"
  by (cases a) simp_all

lemma js_div_NaN_right [simp]: "js_div a NaN = NaN"
  by (cases a) simp_all

text \<open>Division by the two zeros, and the product of an infinity and a zero.\<close>

lemma js_div_zero_examples:
  "js_div (Fin (D 50)) (Fin (D 0)) = PInf \<and> js_div (Fin (D 50)) (Fin negZero) = NInf \<and>
   js_div (Fin (D 0)) (Fin (D 0)) = NaN \<and> js_mul PInf (Fin (D 0)) = NaN"
  by simp

subsection \<open>Unit parsers\<close>

lemma isRadixDigit_not_0x:
  "\<not> isRadixDigit 10 (hd S1) \<Longrightarrow> take 2 S1 \<noteq> ''0x'' \<and> take 2 S1 \<noteq> ''0X''"
  by (cases S1) (auto simp: isRadixDigit_def digitValue_def)

lemma parseInt_NaN:
  assumes "noDecimalPrefix s"
  shows "parseInt s = NaN"
proof -
  define S where "S = dropWhile isWhiteSpace s"
  define S1 where "S1 = (if S \<noteq> [] \<and> (hd S = CHR ''+'' \<or> hd S = CHR ''-'') then tl S else S)"
  have a: "S1 = [] \<or> \<not> isRadixDigit 10 (hd S1)"
    using assms unfolding noDecimalPrefix_def Let_def S1_def S_def .
  have hex: "take 2 S1 \<noteq> ''0x'' \<and> take 2 S1 \<noteq> ''0X''"
    using a isRadixDigit_not_0x [of S1] by auto
  have "takeWhile (isRadixDigit 10) S1 = []"
    using a by (cases S1) auto
  then show ?thesis
    using hex unfolding parseInt_def Let_def S_def [symmetric] S1_def [symmetric] by simp
qed

lemma digit_cases: "d < 10 \<Longrightarrow> d = 0 \<or> d = 1 \<or> d = 2 \<or> d = 3 \<or> d = 4 \<or> d = 5 \<or> d = 6 \<or> d = 7 \<or> d = 8 \<or> d = (9::nat)"
  by arith

lemma digitValue_digitChar: "d < 10 \<Longrightarrow> digitValue (digitChar d) = Some d"
  using digit_cases [of d] by (auto simp: digitChar_def digitValue_def)

lemma isRadixDigit_digitChar: "d < 10 \<Longrightarrow> isRadixDigit 10 (digitChar d)"
  by (simp add: isRadixDigit_def digitValue_digitChar)

lemma isRadixDigit_props:
  "isRadixDigit 10 c \<Longrightarrow> \<not> isWhiteSpace c \<and> c \<noteq> CHR ''+'' \<and> c \<noteq> CHR ''-'' \<and> c \<noteq> CHR ''x'' \<and> c \<noteq> CHR ''X''
     \<and> c \<noteq> CHR ''m'' \<and> c \<noteq> CHR ''i''"
  by (auto simp: isRadixDigit_def isWhiteSpace_def digitValue_def Let_def split: if_splits)

lemma decimal_small: "n < 10 \<Longrightarrow> decimal n = [digitChar n]"
  by (subst decimal.simps) simp

lemma decimal_large: "\<not> n < 10 \<Longrightarrow> decimal n = decimal (n div 10) @ [digitChar (n mod 10)]"
  by (subst decimal.simps) simp

lemma decimal_digits: "list_all (isRadixDigit 10) (decimal n) \<and> decimal n \<noteq> []"
proof (induction n rule: decimal.induct)
  case (1 n)
  show ?case
  proof (cases "n < 10")
    case True
    then show ?thesis
      by (simp add: decimal_small isRadixDigit_digitChar)
  next
    case False
    then show ?thesis
      using 1 by (simp add: decimal_large isRadixDigit_digitChar)
  qed
qed

lemma radixValue_snoc:
  "radixValue R (ds @ [c]) = radixValue R ds * R + (case digitValue c of None \<Rightarrow> 0 | Some v \<Rightarrow> v)"
  by (simp add: radixValue_def)

lemma radixValue_decimal: "radixValue 10 (decimal n) = n"
proof (induction n rule: decimal.induct)
  case (1 n)
  show ?case
  proof (cases "n < 10")
    case True
    then show ?thesis
      by (simp add: decimal_small radixValue_def digitValue_digitChar)
  next
    case False
    then have "radixValue 10 (decimal (n div 10)) = n div 10"
      using 1 by simp
    then show ?thesis
      using False by (simp add: decimal_large radixValue_snoc digitValue_digitChar)
  qed
qed

lemma hd_decimal: "isRadixDigit 10 (hd (decimal n @ suf))"
  using decimal_digits [of n] by (cases "decimal n") auto

lemma takeWhile_decimal:
  assumes "suf = [] \<or> \<not> isRadixDigit 10 (hd suf)"
  shows "takeWhile (isRadixDigit 10) (decimal n @ suf) = decimal n"
proof -
  have "\<forall>c \<in> set (decimal n). isRadixDigit 10 c"
    using decimal_digits [of n] by (simp add: list_all_iff)
  moreover have "takeWhile (isRadixDigit 10) suf = []"
    using assms by (cases suf) auto
  ultimately show ?thesis
    by simp
qed

lemma hd_decimal_nonzero: "0 < n \<Longrightarrow> hd (decimal n) \<noteq> CHR ''0''"
proof (induction n rule: decimal.induct)
  case (1 n)
  show ?case
  proof (cases "n < 10")
    case True
    then show ?thesis
      using 1(2) digit_cases [of n] by (auto simp: decimal_small digitChar_def)
  next
    case False
    then have "hd (decimal (n div 10)) \<noteq> CHR ''0''"
      using 1(1) by simp
    moreover have "decimal (n div 10) \<noteq> []"
      using decimal_digits [of "n div 10"] by simp
    ultimately show ?thesis
      using False by (simp add: decimal_large)
  qed
qed

lemma take2_decimal:
  assumes "suf = [] \<or> (0 < n \<or> (hd suf \<noteq> CHR ''x'' \<and> hd suf \<noteq> CHR ''X''))"
  shows "take 2 (decimal n @ suf) \<noteq> ''0x'' \<and> take 2 (decimal n @ suf) \<noteq> ''0X''"
proof (cases "decimal n")
  case Nil
  then show ?thesis using decimal_digits [of n] by simp
next
  case (Cons a as)
  show ?thesis
  proof (cases "0 < n")
    case True
    then have "a \<noteq> CHR ''0''"
      using hd_decimal_nonzero [of n] Cons by simp
    then show ?thesis
      using Cons by auto
  next
    case n0: False
    show ?thesis
    proof (cases as)
      case Nil
      then show ?thesis using Cons assms n0 by (cases suf) auto
    next
      case (Cons b bs)
      then have "isRadixDigit 10 b"
        using decimal_digits [of n] \<open>decimal n = a # as\<close> by simp
      then show ?thesis
        using Cons \<open>decimal n = a # as\<close> isRadixDigit_props [of b] by auto
    qed
  qed
qed

lemma parseInt_decimal:
  assumes "suf = [] \<or> (\<not> isRadixDigit 10 (hd suf) \<and> (0 < n \<or> (hd suf \<noteq> CHR ''x'' \<and> hd suf \<noteq> CHR ''X'')))"
  shows "parseInt (decimal n @ suf) = fl False (real n)"
proof -
  let ?s = "decimal n @ suf"
  have ne: "?s \<noteq> []"
    using decimal_digits [of n] by simp
  have h: "\<not> isWhiteSpace (hd ?s)" "hd ?s \<noteq> CHR ''+''" "hd ?s \<noteq> CHR ''-''"
    using isRadixDigit_props [OF hd_decimal, of n suf] by auto
  have d: "dropWhile isWhiteSpace ?s = ?s"
    using ne h(1) by (cases ?s) auto
  have x: "take 2 ?s \<noteq> ''0x''" "take 2 ?s \<noteq> ''0X''"
    using take2_decimal [of suf n] assms by auto
  have t: "takeWhile (isRadixDigit 10) ?s = decimal n"
    using takeWhile_decimal [of suf n] assms by auto
  have z: "decimal n \<noteq> []"
    using decimal_digits [of n] by simp
  show ?thesis
    unfolding parseInt_def Let_def d using h x t z by (simp add: radixValue_decimal)
qed

lemma endsWith_iff: "endsWith s t \<longleftrightarrow> (\<exists>p. s = p @ t)"
proof
  assume "endsWith s t"
  then have "s = take (length s - length t) s @ t"
    by (metis append_take_drop_id endsWith_def)
  then show "\<exists>p. s = p @ t" ..
next
  assume "\<exists>p. s = p @ t"
  then show "endsWith s t" by (auto simp: endsWith_def)
qed

lemma endsWith_append [simp]: "endsWith (p @ t) t"
  by (auto simp: endsWith_iff)

lemma endsWith_last: "endsWith s t \<Longrightarrow> t \<noteq> [] \<Longrightarrow> s \<noteq> [] \<and> last s = last t"
  by (auto simp: endsWith_iff)

lemma last_decimal: "isRadixDigit 10 (last (decimal n))"
  using decimal_digits [of n] by (simp add: list_all_iff)

lemma not_endsWith_decimal:
  "\<not> endsWith (decimal n) ''m''" "\<not> endsWith (decimal n) ''Gi''" "\<not> endsWith (decimal n) ''Mi''"
  using endsWith_last [of "decimal n"] isRadixDigit_props [OF last_decimal, of n] by auto

lemma not_endsWith_Mi_Gi: "\<not> endsWith (p @ ''Mi'') ''Gi''"
  by (auto simp: endsWith_iff)

lemma pow2_numeral: "(2::real) ^ n = 2 powi int n"
  by (simp add: power_int_def)

lemma real_le_pow2_emax:
  fixes x :: real
  assumes "x \<le> 2 ^ n" and "int n < emax"
  shows "x \<le> 2 powi (emax - 1)"
proof -
  have "(2::real) powi int n \<le> 2 powi (emax - 1)"
    using assms(2) pow2_le_iff [of "int n" "emax - 1"] by linarith
  then have "(2::real) ^ n \<le> 2 powi (emax - 1)"
    by simp
  then show ?thesis
    using assms(1) by linarith
qed

lemma fl_decimal20:
  assumes "N < 10 ^ 20"
  shows "fl False (real N) = Fin (D (real N))"
proof -
  have "real N < 10 ^ 20"
    using assms by (metis of_nat_less_iff of_nat_numeral of_nat_power)
  then have "real N \<le> 2 ^ 67"
    by simp
  then have "real N \<le> 2 powi (emax - 1)"
    by (rule real_le_pow2_emax) (simp add: emax_def)
  then have "\<bar>round64 (real N)\<bar> < 2 powi emax"
    using round64_small [of "real N"] by simp
  then show ?thesis
    by (rule fl_D)
qed

lemma isDouble_times_1024:
  assumes "N \<le> 2 ^ 53"
  shows "isDouble (real N * 1024)"
proof -
  have a: "\<bar>int N\<bar> \<le> 2 ^ 53"
    using assms by (metis abs_of_nat of_nat_le_iff of_nat_numeral of_nat_power)
  have "round64 (of_int (int N) * 2 powi 10) = of_int (int N) * 2 powi 10"
    using a by (rule round64_repr) (simp add: emin_def)
  then have r: "round64 (real N * 1024) = real N * 1024"
    by (simp add: power_int_def)
  have "real N \<le> 2 ^ 53"
    using assms by (metis of_nat_le_iff of_nat_numeral of_nat_power)
  then have "real N * 1024 \<le> 2 ^ 63"
    by simp
  then have "real N * 1024 \<le> 2 powi (emax - 1)"
    by (rule real_le_pow2_emax) (simp add: emax_def)
  moreover have "(2::real) powi (emax - 1) < 2 powi emax"
    by (simp add: pow2_less_iff)
  ultimately show ?thesis
    using r by (simp add: isDouble_def)
qed

text \<open>
  C5 (amended). For every input string whose prefix is not a decimal integer, \<open>parseCPU\<close>
  and \<open>parseMemory\<close> return \<open>NaN\<close>: a value and not an exception, but not 0.
\<close>

theorem parse_malformed:
  "noDecimalPrefix s \<Longrightarrow> parseCPU s = NaN \<and> parseMemory s = NaN"
  by (simp add: parseCPU_def parseMemory_def parseInt_NaN)

theorem parse_malformed_witness:
  "parseCPU ''  -Gi'' = NaN \<and> parseMemory ''  -Gi'' = NaN"
  using parse_malformed [of "''  -Gi''"]
  by (simp add: noDecimalPrefix_def isWhiteSpace_def isRadixDigit_def digitValue_def)

text \<open>
  C5 as stated says that the result is 0. On the malformed input \<^verbatim>\<open>"abc"\<close> both parsers
  return \<open>NaN\<close>, which is not 0.
\<close>

theorem parse_malformed_counterexample:
  "noDecimalPrefix ''abc'' \<and>
   parseCPU ''abc'' = NaN \<and> parseCPU ''abc'' \<noteq> Fin (D 0) \<and>
   parseMemory ''abc'' = NaN \<and> parseMemory ''abc'' \<noteq> Fin (D 0)"
  by (simp add: noDecimalPrefix_def parseCPU_def parseMemory_def parseInt_def endsWith_def
      isWhiteSpace_def isRadixDigit_def digitValue_def radixValue_def Let_def)

lemma parseInt_plain:
  "plainSuffix N suf \<Longrightarrow> parseInt (decimal N @ suf) = fl False (real N)"
  unfolding plainSuffix_def by (rule parseInt_decimal)

lemma plainSuffix_units [simp]:
  "plainSuffix N ''m''" "plainSuffix N ''Gi''" "plainSuffix N ''Mi''" "plainSuffix N []"
  by (simp_all add: plainSuffix_def isRadixDigit_def digitValue_def)

text \<open>
  C6 (amended). Let \<open>N\<close> be a natural number, written as its decimal numeral, and call a
  suffix plain when it does not start with a digit (nor, after the numeral \<^verbatim>\<open>0\<close>, with
  \<^verbatim>\<open>x\<close> or \<^verbatim>\<open>X\<close>). For \<open>N \<le> 2^53\<close>: \<open>parseCPU\<close> of the numeral followed by \<^verbatim>\<open>m\<close> is \<open>N\<close>;
  \<open>parseMemory\<close> of the numeral followed by \<^verbatim>\<open>Gi\<close> is \<open>N * 1024\<close>, followed by \<^verbatim>\<open>Mi\<close> it
  is \<open>N\<close>, and followed by any plain suffix that does not end in \<^verbatim>\<open>Gi\<close> it is \<open>N\<close>. For
  \<open>N * 1000 \<le> 2^53\<close>: \<open>parseCPU\<close> of the bare numeral, and of the numeral followed by any
  plain suffix that does not end in \<^verbatim>\<open>m\<close>, is \<open>N * 1000\<close>. For a numeral of at most 20
  digits in general, \<open>parseCPU\<close> of the numeral followed by \<^verbatim>\<open>m\<close> is the double nearest to
  \<open>N\<close>. In particular \<^verbatim>\<open>"500m"\<close> gives 500, \<^verbatim>\<open>"2"\<close> gives 2000, \<^verbatim>\<open>"512Mi"\<close> gives 512 and
  \<^verbatim>\<open>"1Gi"\<close> gives 1024.
\<close>

theorem parse_units:
  "(N \<le> 2 ^ 53 \<longrightarrow>
      val (D (real N)) = real N \<and>
      val (D (real N * 1024)) = real N * 1024 \<and>
      parseCPU (decimal N @ ''m'') = Fin (D (real N)) \<and>
      parseMemory (decimal N @ ''Gi'') = Fin (D (real N * 1024)) \<and>
      parseMemory (decimal N @ ''Mi'') = Fin (D (real N)) \<and>
      (\<forall>suf. plainSuffix N suf \<and> \<not> endsWith (decimal N @ suf) ''Gi''
         \<longrightarrow> parseMemory (decimal N @ suf) = Fin (D (real N)))) \<and>
   (N * 1000 \<le> 2 ^ 53 \<longrightarrow>
      val (D (real N * 1000)) = real N * 1000 \<and>
      parseCPU (decimal N) = Fin (D (real N * 1000)) \<and>
      (\<forall>suf. plainSuffix N suf \<and> \<not> endsWith (decimal N @ suf) ''m''
         \<longrightarrow> parseCPU (decimal N @ suf) = Fin (D (real N * 1000)))) \<and>
   (N < 10 ^ 20 \<longrightarrow> parseCPU (decimal N @ ''m'') = Fin (D (real N))) \<and>
   parseCPU ''500m'' = Fin (D 500) \<and> parseCPU ''2'' = Fin (D 2000) \<and>
   parseMemory ''512Mi'' = Fin (D 512) \<and> parseMemory ''1Gi'' = Fin (D 1024)"
proof -
  have A: "val (D (real N)) = real N \<and>
      val (D (real N * 1024)) = real N * 1024 \<and>
      parseCPU (decimal N @ ''m'') = Fin (D (real N)) \<and>
      parseMemory (decimal N @ ''Gi'') = Fin (D (real N * 1024)) \<and>
      parseMemory (decimal N @ ''Mi'') = Fin (D (real N)) \<and>
      (\<forall>suf. plainSuffix N suf \<and> \<not> endsWith (decimal N @ suf) ''Gi''
         \<longrightarrow> parseMemory (decimal N @ suf) = Fin (D (real N)))" if le: "N \<le> 2 ^ 53"
  proof -
    have d: "isDouble (real N)"
      using le by (rule isDouble_of_nat)
    have d2: "isDouble (real N * 1024)"
      using le by (rule isDouble_times_1024)
    have p: "parseInt (decimal N @ suf) = Fin (D (real N))" if "plainSuffix N suf" for suf
      using that d by (simp add: parseInt_plain D_isDouble)
    have g: "js_mul (Fin (D (real N))) (Fin (D 1024)) = Fin (D (real N * 1024))"
      using d d2 by (simp add: D_isDouble)
    show ?thesis
      using d d2 g by (simp add: parseCPU_def parseMemory_def p not_endsWith_Mi_Gi)
  qed
  have B: "val (D (real N * 1000)) = real N * 1000 \<and>
      parseCPU (decimal N) = Fin (D (real N * 1000)) \<and>
      (\<forall>suf. plainSuffix N suf \<and> \<not> endsWith (decimal N @ suf) ''m''
         \<longrightarrow> parseCPU (decimal N @ suf) = Fin (D (real N * 1000)))" if le: "N * 1000 \<le> 2 ^ 53"
  proof -
    have "N \<le> 2 ^ 53"
      using le by simp
    then have d: "isDouble (real N)"
      by (rule isDouble_of_nat)
    have "isDouble (real (N * 1000))"
      using le by (rule isDouble_of_nat)
    then have d2: "isDouble (real N * 1000)"
      by simp
    have p: "parseInt (decimal N @ suf) = Fin (D (real N))" if "plainSuffix N suf" for suf
      using that d by (simp add: parseInt_plain D_isDouble)
    have g: "js_mul (Fin (D (real N))) (Fin (D 1000)) = Fin (D (real N * 1000))"
      using d d2 by (simp add: D_isDouble)
    have bare: "parseCPU (decimal N) = Fin (D (real N * 1000))"
      using p [of "[]"] g by (simp add: parseCPU_def not_endsWith_decimal)
    show ?thesis
      using d2 g bare by (simp add: parseCPU_def p)
  qed
  have C: "parseCPU (decimal N @ ''m'') = Fin (D (real N))" if "N < 10 ^ 20"
    using that by (simp add: parseCPU_def parseInt_plain fl_decimal20)
  have E: "parseCPU ''500m'' = Fin (D 500) \<and> parseCPU ''2'' = Fin (D 2000) \<and>
           parseMemory ''512Mi'' = Fin (D 512) \<and> parseMemory ''1Gi'' = Fin (D 1024)"
    by (simp add: parseCPU_def parseMemory_def parseInt_def endsWith_def isWhiteSpace_def
        isRadixDigit_def digitValue_def radixValue_def Let_def D_isDouble)
  show ?thesis
    using A B C E by blast
qed

theorem parse_units_witness:
  "parseCPU (decimal 250 @ ''m'') = Fin (D 250) \<and> val (D 250) = 250 \<and>
   parseMemory (decimal 3 @ ''Gi'') = Fin (D 3072) \<and>
   parseMemory (decimal 7 @ ''MiB'') = Fin (D 7) \<and>
   parseCPU (decimal 2 @ '' cores'') = Fin (D 2000) \<and>
   decimal 250 = ''250'' \<and> decimal 3 = ''3'' \<and> decimal 7 = ''7'' \<and> decimal 2 = ''2''"
proof -
  have a: "plainSuffix 7 ''MiB'' \<and> \<not> endsWith (decimal 7 @ ''MiB'') ''Gi''"
    by (simp add: plainSuffix_def isRadixDigit_def digitValue_def endsWith_def decimal.simps)
  have b: "plainSuffix 2 '' cores'' \<and> \<not> endsWith (decimal 2 @ '' cores'') ''m''"
    by (simp add: plainSuffix_def isRadixDigit_def digitValue_def endsWith_def decimal.simps)
  have c: "decimal 250 = ''250'' \<and> decimal 3 = ''3'' \<and> decimal 7 = ''7'' \<and> decimal 2 = ''2''"
    by (simp add: decimal.simps digitChar_def)
  show ?thesis
    using parse_units [of 250] parse_units [of 3]
      parse_units [of 7, THEN conjunct1, rule_format, THEN conjunct2, THEN conjunct2,
        THEN conjunct2, THEN conjunct2, THEN conjunct2, rule_format, OF _ a]
      parse_units [of 2, THEN conjunct2, THEN conjunct1, rule_format, THEN conjunct2,
        THEN conjunct2, rule_format, OF _ b] c
    by simp
qed

text \<open>
  C6 as stated holds for every non-negative integer and every string without a recognized
  suffix. The numeral of \<open>2^53 + 1\<close> followed by \<^verbatim>\<open>m\<close> parses to \<open>2^53\<close>, the nearest double;
  and \<^verbatim>\<open>"0x10"\<close>, the numeral 0 followed by an unrecognized suffix, parses to 16 as a
  hexadecimal numeral.
\<close>

theorem parse_units_counterexample:
  "decimal 9007199254740993 @ ''m'' = ''9007199254740993m'' \<and>
   parseCPU ''9007199254740993m'' = Fin (D 9007199254740992) \<and>
   val (D 9007199254740992) = 9007199254740992 \<and>
   decimal 0 @ ''x10'' = ''0x10'' \<and>
   \<not> endsWith ''0x10'' ''Gi'' \<and> \<not> endsWith ''0x10'' ''Mi'' \<and>
   parseMemory ''0x10'' = Fin (D 16) \<and> val (D 16) = 16"
proof -
  have r: "round64 9007199254740993 = 9007199254740992"
    using round64_eval [of 53 9007199254740993] by (simp add: emin_def rhe_def Let_def)
  have "(9007199254740992::real) \<le> 2 ^ 53"
    by simp
  then have "(9007199254740992::real) \<le> 2 powi (emax - 1)"
    by (rule real_le_pow2_emax) (simp add: emax_def)
  moreover have "(2::real) powi (emax - 1) < 2 powi emax"
    by (simp add: pow2_less_iff)
  ultimately have "\<bar>round64 9007199254740993\<bar> < 2 powi emax"
    using r by simp
  then have f: "fl False 9007199254740993 = Fin (D 9007199254740992)"
    using r by (simp add: fl_inRange D_isDouble)
  have p: "parseInt ''9007199254740993m'' = fl False 9007199254740993"
    by (simp add: parseInt_def isWhiteSpace_def isRadixDigit_def digitValue_def radixValue_def
        Let_def)
  have 1: "parseCPU ''9007199254740993m'' = Fin (D 9007199254740992)"
    by (simp add: parseCPU_def p f endsWith_def)
  have 2: "decimal 9007199254740993 @ ''m'' = ''9007199254740993m'' \<and> decimal 0 @ ''x10'' = ''0x10''"
    by (simp add: decimal.simps digitChar_def)
  have 3: "parseMemory ''0x10'' = Fin (D 16)"
    by (simp add: parseMemory_def parseInt_def isWhiteSpace_def isRadixDigit_def digitValue_def
        radixValue_def Let_def endsWith_def D_isDouble)
  show ?thesis
    using 1 2 3 by (simp add: endsWith_def)
qed

subsection \<open>Comparisons and rounding functions\<close>

lemma js_le_Fin [simp]: "js_le (Fin x) (Fin y) = (val x \<le> val y)"
  by (auto simp: js_le_def)

lemma js_ge_Fin [simp]: "js_ge (Fin x) (Fin y) = (val y \<le> val x)"
  by (simp add: js_ge_def)

lemma js_gt_Fin [simp]: "js_gt (Fin x) (Fin y) = (val y < val x)"
  by (simp add: js_gt_def)





lemma Math_ceil_NaN [simp]: "Math_ceil a = NaN \<longleftrightarrow> a = NaN"
  by (cases a) simp_all

lemma Math_floor_NaN [simp]: "Math_floor a = NaN \<longleftrightarrow> a = NaN"
  by (cases a) simp_all

lemma Math_max_NaN [simp]: "Math_max a b = NaN \<longleftrightarrow> a = NaN \<or> b = NaN"
  by (auto simp: Math_max_def)

lemma Math_min_NaN [simp]: "Math_min a b = NaN \<longleftrightarrow> a = NaN \<or> b = NaN"
  by (auto simp: Math_min_def)


subsection \<open>scaleReplicas\<close>

text \<open>
  C9. \<open>scaleReplicas\<close> is independent of its \<open>totalUsers\<close> argument: any two values of it
  give the same result, for all values of the other arguments.
\<close>

theorem scaleReplicas_ignores_totalUsers:
  "scaleReplicas currentReplicas avgCpu avgMemory t1 config =
   scaleReplicas currentReplicas avgCpu avgMemory t2 config"
  by (simp add: scaleReplicas_def)



lemma inRange_isDouble: "isDouble x \<Longrightarrow> inRange x"
  by (simp add: isDouble_def inRange_def)











subsection \<open>distributeUsers\<close>






















subsection \<open>The unbound population list\<close>

text \<open>
  C10. In the initial module state the identifier \<^verbatim>\<open>users\<close> is unbound. A tick in a state
  where it is unbound throws a \<open>ReferenceError\<close>, for every configuration, clock reading and
  random draws, and leaves it unbound; a tick that returns a population started from a
  state where \<^verbatim>\<open>users\<close> was bound; \<open>resetSimulation\<close> binds it to the empty list.
\<close>

theorem simulateUserActivity_before_reset:
  "users initialState = None \<and>
   (users st = None \<longrightarrow>
      (\<exists>st'. simulateUserActivity msin cfg now rnd st = Some (Inl ReferenceError, st') \<and>
             users st' = None)) \<and>
   (\<forall>us st'. simulateUserActivity msin cfg now rnd st = Some (Inr us, st') \<longrightarrow> users st \<noteq> None) \<and>
   users (resetSimulation st) = Some []"
  by (auto simp: initialState_def resetSimulation_def simulateUserActivity_def Let_def
      split: option.splits)

theorem simulateUserActivity_before_reset_witness:
  "(\<exists>st'. simulateUserActivity exampleSin exampleConfig (D 1000) (\<lambda>k. D 0) initialState =
            Some (Inl ReferenceError, st') \<and> users st' = None) \<and>
   users (resetSimulation initialState) = Some []"
  using simulateUserActivity_before_reset [of initialState exampleSin exampleConfig "D 1000" "\<lambda>k. D 0"]
  by simp

subsection \<open>Bounds and monotonicity of the rounded operations\<close>

lemma round64_bound:
  assumes "\<bar>x\<bar> \<le> B" and "isDouble B"
  shows "\<bar>round64 x\<bar> \<le> B"
proof -
  have "round64 \<bar>x\<bar> \<le> round64 B"
    using assms(1) by (rule round64_mono)
  then show ?thesis
    using assms(2) by (simp add: round64_abs isDouble_def)
qed




lemma js_le_refl: "a \<noteq> NaN \<Longrightarrow> js_le a a"
  by (cases a) (auto simp: js_le_def)




lemma val_floor_result [simp]:
  "val (if val x = 0 then x else D (of_int \<lfloor>val x\<rfloor>)) = of_int \<lfloor>val x\<rfloor>"
  by (simp add: isDouble_floor)






subsection \<open>generateLoad\<close>

lemma trunc_rem_abs:
  assumes "y \<noteq> 0"
  shows "\<bar>x - y * of_int (trunc (x / y))\<bar> < \<bar>y\<bar>"
proof -
  define q where "q = x / y"
  have "\<bar>q - of_int (trunc q)\<bar> < 1"
    unfolding trunc_def by (cases "0 \<le> q") (simp_all, linarith+)
  then have "\<bar>y\<bar> * \<bar>q - of_int (trunc q)\<bar> < \<bar>y\<bar> * 1"
    using assms by (intro mult_strict_left_mono) simp_all
  moreover have "x - y * of_int (trunc q) = y * (q - of_int (trunc q))"
    using assms by (simp add: q_def algebra_simps)
  ultimately show ?thesis
    unfolding q_def [symmetric] by (simp add: abs_mult)
qed

lemma isDouble_abs [simp]: "isDouble \<bar>x\<bar> = isDouble x"
  by (cases "0 \<le> x") (simp_all add: abs_if)

































lemma rhe_numeral [simp]: "rhe (numeral k) = numeral k"
  using rhe_of_int [of "numeral k"] by simp



subsection \<open>simulateUserActivity\<close>

lemma maxArrayLength_le: "n \<le> maxArrayLength \<Longrightarrow> n \<le> 2 ^ 53"
  by (simp add: maxArrayLength_def)

lemma js_lt_lengthNum:
  assumes "length us \<le> maxArrayLength"
  shows "js_lt (lengthNum us) (Fin t) = (real (length us) < val t)"
    and "js_gt (lengthNum us) (Fin t) = (val t < real (length us))"
  using isDouble_of_nat [OF maxArrayLength_le [OF assms]] by (simp_all add: lengthNum_def)












text \<open>With a negative target the second loop never ends.\<close>

lemma shrinkUsers_Some_target:
  assumes "shrinkUsers target us = Some y" and "val t < 0" and "length us \<le> maxArrayLength"
  shows "target \<noteq> Fin t"
proof -
  have "length us \<le> maxArrayLength \<longrightarrow> target \<noteq> Fin t"
  proof (rule shrinkUsers.raw_induct
      [where P = "\<lambda>tg us y. length us \<le> maxArrayLength \<longrightarrow> tg \<noteq> Fin t", OF _ assms(1)])
    fix f :: "jsnum \<Rightarrow> UserSession list \<Rightarrow> UserSession list option" and tg us y
    assume IH: "\<And>tg us y. f tg us = Some y \<Longrightarrow> length us \<le> maxArrayLength \<longrightarrow> tg \<noteq> Fin t"
      and step: "(if js_gt (lengthNum us) tg then f tg (butlast us) else Some us) = Some y"
    show "length us \<le> maxArrayLength \<longrightarrow> tg \<noteq> Fin t"
    proof
      assume l: "length us \<le> maxArrayLength"
      show "tg \<noteq> Fin t"
      proof (cases "js_gt (lengthNum us) tg")
        case True
        then have "f tg (butlast us) = Some y"
          using step by simp
        moreover have "length (butlast us) \<le> maxArrayLength"
          using l by simp
        ultimately show ?thesis
          using IH by blast
      next
        case False
        then show ?thesis
          using assms(2) js_lt_lengthNum(2) [OF l, of t] by auto
      qed
    qed
  qed
  then show ?thesis
    using assms(3) by simp
qed

lemma shrinkUsers_negative:
  assumes "val t < 0" and "length us \<le> maxArrayLength"
  shows "shrinkUsers (Fin t) us = None"
  using shrinkUsers_Some_target [OF _ assms, of "Fin t"]
  by (cases "shrinkUsers (Fin t) us") auto


lemma round64_numeral [simp]:
  "(numeral k :: real) \<le> 9007199254740992 \<Longrightarrow> round64 (numeral k) = numeral k"
  using isDouble_numeral [of k] by (simp add: isDouble_def)

lemma inRange_numeral [simp]:
  "(numeral k :: real) \<le> 9007199254740992 \<Longrightarrow> inRange (numeral k)"
  using isDouble_numeral [of k] by (simp add: inRange_isDouble)

lemma inRange_0 [simp]: "inRange 0"
  by (simp add: inRange_def)




subsection \<open>simulatePodUsage\<close>


lemma nonneg_PInf [simp]: "js_le (Fin (D 0)) PInf"
  by (simp add: js_le_def)






lemma js_mul_100_NaN [simp]: "js_mul a (Fin (D 100)) = NaN \<longleftrightarrow> a = NaN"
  by (cases a) simp_all


lemma percentage_clamp_NaN [simp]:
  "Math_min (Fin (D 100)) (Math_max (Fin (D 0)) x) = NaN \<longleftrightarrow> x = NaN"
  by simp





lemma addUser_not_Inl:
  "addUser config ur acc user = Inl e \<Longrightarrow>
     e = TypeError \<and> generateUserLoad (session_type user) config = Undefined"
  by (simp add: addUser_def Let_def split: if_splits)









subsection \<open>Exactness of the remainder and of integer quotients\<close>

text \<open>The remainder of two doubles is a double: \<^verbatim>\<open>%\<close> is exact.\<close>

lemma trunc_small: "\<bar>z\<bar> < 1 \<Longrightarrow> trunc z = 0"
  unfolding trunc_def by (cases "0 \<le> z") (simp_all, linarith+)

lemma rem_isDouble:
  assumes "isDouble x" and "isDouble y" and "y \<noteq> 0"
  shows "isDouble (x - y * of_int (trunc (x / y)))"
proof -
  define q where "q = trunc (x / y)"
  define r where "r = x - y * of_int q"
  have rb: "\<bar>r\<bar> < \<bar>y\<bar>"
    unfolding r_def q_def using assms(3) by (rule trunc_rem_abs)
  have yb: "\<bar>y\<bar> < 2 powi emax"
    using assms(2) by (simp add: isDouble_def)
  show ?thesis
  proof (cases "expo x < expo y")
    case True
    have "r = x"
    proof (cases "x = 0")
      case True
      then show ?thesis by (simp add: r_def q_def trunc_def)
    next
      case False
      have "emin < expo y"
        using True expo_ge [of x] by linarith
      then have "2 powi (expo y) \<le> \<bar>y\<bar>"
        using assms(3) by (intro expo_lower)
      moreover have "\<bar>x\<bar> < 2 powi (expo x + 1)"
        using False by (rule expo_upper)
      moreover have "(2::real) powi (expo x + 1) \<le> 2 powi (expo y)"
        using True by (simp add: pow2_le_iff)
      ultimately have "\<bar>x\<bar> < \<bar>y\<bar>"
        by linarith
      then have "\<bar>x / y\<bar> < 1"
        using assms(3) by simp
      then have "trunc (x / y) = 0"
        by (rule trunc_small)
      then show ?thesis
        by (simp add: r_def q_def)
    qed
    then have "isDouble r"
      using assms(1) by simp
    then show ?thesis
      unfolding r_def q_def .
  next
    case False
    define E where "E = expo y - 52"
    define U where "U = (2::real) powi E"
    define j where "j = nat (expo x - expo y)"
    have Up: "0 < U"
      by (simp add: U_def)
    obtain mx where mx: "x = of_int mx * 2 powi (expo x - 52)"
      using isDouble_form [OF assms(1)] by blast
    obtain my where my: "\<bar>my\<bar> \<le> 2 ^ 53" "y = of_int my * U"
      using isDouble_form [OF assms(2)] unfolding U_def E_def by blast
    have "expo x - 52 = int j + E"
      using False by (simp add: j_def E_def)
    then have "(2::real) powi (expo x - 52) = 2 powi (int j) * U"
      unfolding U_def by (simp add: power_int_add)
    then have xu: "x = of_int (mx * 2 ^ j) * U"
      using mx by simp
    define c where "c = mx * 2 ^ j - my * q"
    have rc: "r = of_int c * U"
      unfolding r_def c_def by (subst xu, subst my(2)) (simp add: algebra_simps)
    have "\<bar>of_int c\<bar> * U < \<bar>of_int my\<bar> * U"
      using rb Up unfolding rc my(2) by (simp add: abs_mult)
    then have "\<bar>real_of_int c\<bar> < \<bar>of_int my\<bar>"
      using Up by simp
    then have "\<bar>c\<bar> < \<bar>my\<bar>"
      by linarith
    then have cb: "\<bar>c\<bar> \<le> 2 ^ 53"
      using my(1) by linarith
    have "emin - 52 \<le> E"
      using expo_ge [of y] by (simp add: E_def)
    then have "round64 (of_int c * 2 powi E) = of_int c * 2 powi E"
      using cb by (intro round64_repr)
    then have "round64 r = r"
      unfolding rc U_def .
    moreover have "\<bar>r\<bar> < 2 powi emax"
      using rb yb by linarith
    ultimately have "isDouble r"
      by (simp add: isDouble_def)
    then show ?thesis
      unfolding r_def q_def .
  qed
qed

lemma js_mod_exact:
  assumes "val y \<noteq> 0"
  shows "\<exists>d. js_mod (Fin x) (Fin y) = Fin d \<and>
           val d = val x - val y * of_int (trunc (val x / val y))"
  using assms rem_isDouble [of "val x" "val y"] by simp


lemma rhe_error: "\<bar>of_int (rhe q) - q\<bar> \<le> 1 / 2"
proof -
  have "of_int \<lfloor>q\<rfloor> \<le> q" "q < of_int \<lfloor>q\<rfloor> + 1"
    by linarith+
  then show ?thesis
    unfolding rhe_def Let_def by (auto simp: abs_le_iff)
qed

lemma round64_error:
  assumes "0 < x" and "emin < expo x"
  shows "round64 x \<le> x + x * 2 powi (- 53)"
proof -
  define U where "U = ulp x"
  define P where "P = (2::real) powi (- 53)"
  have Up: "0 < U"
    by (simp add: U_def)
  have "of_int (rhe (x / U)) - x / U \<le> 1 / 2"
    using rhe_error [of "x / U"] by linarith
  then have "(of_int (rhe (x / U)) - x / U) * U \<le> 1 / 2 * U"
    using Up by (intro mult_right_mono) simp_all
  then have e: "of_int (rhe (x / U)) * U - x \<le> U / 2"
    using Up by (simp add: algebra_simps)
  have "(2::real) powi (expo x) \<le> \<bar>x\<bar>"
    using assms by (intro expo_lower) simp_all
  then have le: "(2::real) powi (expo x) \<le> x"
    using assms(1) by simp
  have "(2::real) powi (expo x - 52) = 2 powi (expo x + 1 + (- 53))"
    by simp
  also have "\<dots> = 2 powi (expo x + 1) * 2 powi (- 53)"
    by (rule power_int_add) simp
  also have "(2::real) powi (expo x + 1) = 2 powi (expo x) * 2 powi 1"
    by (rule power_int_add) simp
  finally have "U = 2 * 2 powi (expo x) * P"
    unfolding U_def ulp_def P_def by simp
  then have "U / 2 = 2 powi (expo x) * P"
    by simp
  also have "\<dots> \<le> x * P"
    using le unfolding P_def by (intro mult_right_mono) simp_all
  finally have "U / 2 \<le> x * P" .
  moreover have "round64 x = of_int (rhe (x / U)) * U"
    unfolding U_def using assms(1) by (rule round64_pos_eq)
  ultimately show ?thesis
    using e unfolding P_def by linarith
qed

text \<open>
  The floor of the rounded quotient of two array lengths, or of an index and a length, is
  the integer quotient.
\<close>

lemma floor_quotient:
  assumes "a < 2 ^ 53" and "0 < b" and "b < 2 ^ 53"
  shows "\<lfloor>round64 (real a / real b)\<rfloor> = int (a div b)"
proof (cases "a = 0")
  case True
  then show ?thesis by simp
next
  case False
  define x where "x = real a / real b"
  define q where "q = a div b"
  have xp: "0 < x"
    using False assms(2) by (simp add: x_def)
  have ar: "real a < 2 ^ 53" "real b < 2 ^ 53"
    using assms(1,3) by (metis of_nat_less_iff of_nat_numeral of_nat_power)+
  have "1 \<le> real a"
    using False by simp
  then have "1 / real b \<le> x"
    unfolding x_def using assms(2) by (intro divide_right_mono) simp_all
  moreover have "1 / 2 ^ 53 < 1 / real b"
    using ar(2) assms(2) by (intro divide_strict_left_mono) simp_all
  moreover have "(2::real) powi (- 53) = 1 / 2 ^ 53"
    by (simp add: power_int_minus divide_simps)
  ultimately have lo: "2 powi (- 53) \<le> \<bar>x\<bar>"
    using xp by linarith
  have "expo (2 powi (- 53)) \<le> expo x"
    using lo by (intro expo_mono) simp_all
  moreover have "expo (2 powi (- 53)) = max (- 53) emin"
    by (rule expo_eq) (simp_all add: pow2_less_iff)
  ultimately have ex: "emin < expo x"
    by (simp add: emin_def)
  have up: "round64 x \<le> x + x * 2 powi (- 53)"
    using xp ex by (rule round64_error)
  have "q * b \<le> a"
    by (simp add: q_def)
  then have "real q * real b \<le> real a"
    by (metis of_nat_le_iff of_nat_mult)
  then have qx: "real q \<le> x"
    unfolding x_def using assms(2) by (simp add: le_divide_eq)
  have "q \<le> a"
    by (simp add: q_def)
  then have "q \<le> 2 ^ 53"
    using assms(1) by simp
  then have "isDouble (real q)"
    by (rule isDouble_of_nat)
  then have "real q = round64 (real q)"
    by (simp add: isDouble_def)
  also have "\<dots> \<le> round64 x"
    using qx by (rule round64_mono)
  finally have low: "real q \<le> round64 x" .
  have "a < (q + 1) * b"
    unfolding q_def using assms(2) by (metis Suc_eq_plus1 dividend_less_div_times mult.commute mult_Suc)
  then have "a + 1 \<le> (q + 1) * b"
    by simp
  then have "real a + 1 \<le> (real q + 1) * real b"
    by (metis of_nat_1 of_nat_add of_nat_le_iff of_nat_mult)
  then have "(real a + 1) / real b \<le> real q + 1"
    using assms(2) by (simp add: divide_le_eq)
  then have x1: "x + 1 / real b \<le> real q + 1"
    by (simp add: x_def add_divide_distrib)
  have "x * 2 powi (- 53) = (real a / 2 ^ 53) / real b"
    by (simp add: x_def power_int_minus divide_simps)
  also have "\<dots> < 1 / real b"
    using ar(1) assms(2) by (intro divide_strict_right_mono) simp_all
  finally have "x * 2 powi (- 53) < 1 / real b" .
  then have "round64 x < real q + 1"
    using up x1 by linarith
  then have "\<lfloor>round64 x\<rfloor> = int q"
    using low by linarith
  then show ?thesis
    unfolding x_def q_def .
qed

lemma Math_floor_quotient:
  assumes "a < 2 ^ 52" and "0 < b" and "b < 2 ^ 52"
  shows "Math_floor (js_div (Fin (D (real a))) (Fin (D (real b)))) = Fin (D (real (a div b))) \<and>
         js_add (Fin (D (real (a div b)))) (Fin (D 1)) = Fin (D (real (a div b + 1))) \<and>
         val (D (real (a div b + 1))) = real (a div b + 1)"
proof -
  have l: "a < 2 ^ 53" "b < 2 ^ 53"
    using assms(1,3) by simp_all
  have p: "(2::nat) ^ 52 + 1 \<le> 2 ^ 53"
    by simp
  have "a div b \<le> a"
    by simp
  then have l2: "a div b \<le> 2 ^ 53" "a div b + 1 \<le> 2 ^ 53"
    using assms(1) p by linarith+
  have d: "isDouble (real a)" "isDouble (real b)" "isDouble (real (a div b))"
    "isDouble (real (a div b + 1))"
    using l l2 by (intro isDouble_of_nat; simp)+
  have f: "\<lfloor>round64 (real a / real b)\<rfloor> = int (a div b)"
    using l(1) assms(2) l(2) by (rule floor_quotient)
  define h where "h = mkDouble False (round64 (real a / real b))"
  have "real a / real b \<le> real a / 1"
    using assms(2) by (intro divide_left_mono) simp_all
  then have "\<bar>real a / real b\<bar> \<le> real a"
    by simp
  then have "\<bar>round64 (real a / real b)\<bar> \<le> real a"
    using d(1) by (rule round64_bound)
  moreover have "\<bar>real a\<bar> < 2 powi emax"
    using d(1) by (simp add: isDouble_def)
  ultimately have r: "\<bar>round64 (real a / real b)\<bar> < 2 powi emax"
    by linarith
  then have dh: "isDouble (round64 (real a / real b))"
    by (rule isDouble_round64)
  have vh: "val h = round64 (real a / real b)"
    using dh by (simp add: h_def)
  have "0 \<le> round64 (real a / real b)"
    by (intro round64_nonneg) simp
  then have nh: "\<not> isNeg h"
    using dh by (simp add: h_def)
  have q: "js_div (Fin (D (real a))) (Fin (D (real b))) = Fin h"
    using d(1,2) assms(2) r by (simp add: fl_inRange h_def)
  have fh: "\<lfloor>val h\<rfloor> = int (a div b)"
    using f vh by simp
  have 1: "Math_floor (Fin h) = Fin (D (real (a div b)))"
  proof (cases "val h = 0")
    case True
    then have "a div b = 0"
      using fh by simp
    moreover have "h = D 0"
      using True nh by (intro double_eqI) simp_all
    ultimately show ?thesis
      using True by simp
  next
    case False
    have "of_int \<lfloor>val h\<rfloor> = real (a div b)"
      using fh by simp
    then show ?thesis
      using False by simp
  qed
  have 2: "js_add (Fin (D (real (a div b)))) (Fin (D 1)) = Fin (D (real (a div b + 1)))"
    using d(3,4) by (simp add: Let_def D_isDouble add.commute)
  show ?thesis
    using q 1 2 d(4) by simp
qed


text \<open>
  The arithmetic of \<open>distributeUsers\<close> on array lengths and indices: the source's
  \<^verbatim>\<open>Math.floor(users.length / pods.length) + 1\<close>, \<^verbatim>\<open>Math.floor(index / maxUsersPerPod)\<close> and
  \<^verbatim>\<open>podIndex < sortedPods.length\<close>, computed in doubles, are the natural-number expressions
  of the definition.
\<close>

lemma distributeUsers_arithmetic:
  assumes "length us \<le> maxArrayLength" and "ps \<noteq> []" and "length ps \<le> maxArrayLength"
    and "i < length us"
  shows "js_add (Math_floor (js_div (lengthNum us) (lengthNum ps))) (Fin (D 1))
           = Fin (D (real (length us div length ps + 1)))"
    and "Math_floor (js_div (Fin (D (real i))) (Fin (D (real (length us div length ps + 1)))))
           = Fin (D (real (i div (length us div length ps + 1))))"
    and "js_lt (Fin (D (real (i div (length us div length ps + 1))))) (lengthNum ps)
           \<longleftrightarrow> i div (length us div length ps + 1) < length ps"
proof -
  have m: "maxArrayLength + 1 < 2 ^ 52"
    by (simp add: maxArrayLength_def)
  have l: "length us < 2 ^ 52" "length ps < 2 ^ 52" "0 < length ps" "i < 2 ^ 52"
    using assms m by (simp, simp, simp, linarith)
  have "length us div length ps \<le> length us"
    by simp
  then have c: "length us div length ps + 1 < 2 ^ 52" "0 < length us div length ps + 1"
    using assms(1) m by linarith+
  show "js_add (Math_floor (js_div (lengthNum us) (lengthNum ps))) (Fin (D 1))
           = Fin (D (real (length us div length ps + 1)))"
    using Math_floor_quotient [OF l(1) l(3) l(2)] by (simp add: lengthNum_def)
  show "Math_floor (js_div (Fin (D (real i))) (Fin (D (real (length us div length ps + 1)))))
           = Fin (D (real (i div (length us div length ps + 1))))"
    using Math_floor_quotient [OF l(4) c(2) c(1)] by simp
  have p: "(2::nat) ^ 52 + 1 \<le> 2 ^ 53"
    by simp
  have "i div (length us div length ps + 1) \<le> i"
    by simp
  then have "i div (length us div length ps + 1) \<le> 2 ^ 53"
    using l(4) p by linarith
  then have "isDouble (real (i div (length us div length ps + 1)))"
    by (rule isDouble_of_nat)
  moreover have "isDouble (real (length ps))"
    using l(2) by (intro isDouble_of_nat) simp
  ultimately show "js_lt (Fin (D (real (i div (length us div length ps + 1))))) (lengthNum ps)
           \<longleftrightarrow> i div (length us div length ps + 1) < length ps"
    by (simp add: lengthNum_def)
qed

end
